theory Spec2Isabelle
  imports Complex_Main "HOL-Library.Sublist" "HOL-Library.Multiset"
begin

section \<open>The reporter shared by validate.mjs and the browser QA script\<close>

text \<open>
  Both scripts keep three module-level counters (\<open>passed\<close>, \<open>failed\<close>, \<open>warnings\<close>) and
  print one console line for every outcome. The counters are JavaScript numbers that
  only ever receive \<open>++\<close>; they are modelled as natural numbers (a run records far fewer
  than \<open>2^53\<close> outcomes, below which \<open>++\<close> on a double is exact). The console is the
  ordered list of lines written so far; colour escapes and the leading glyph of a line
  are represented by the constructor of the line.

  A JavaScript string is an Isabelle \<open>string\<close>, one \<open>char\<close> for each UTF-16 code
  unit; the model covers the texts whose code units are below 256. The fixed texts the
  scripts search for are all ASCII.
\<close>

datatype outcome = Pass | Fail | Warn

datatype line =
    Result outcome string
  | Detail string
  | Heading string
  | Plain string

record reporter =
  passed :: nat
  failed :: nat
  warnings :: nat
  console :: "line list"

definition initial :: reporter where
  "initial = \<lparr>passed = 0, failed = 0, warnings = 0, console = []\<rparr>"

definition log :: "line \<Rightarrow> reporter \<Rightarrow> reporter" where
  "log l r = r\<lparr>console := console r @ [l]\<rparr>"

text \<open>\<open>if (detail) console.log(...)\<close>: an omitted argument and the empty string are falsy.\<close>

fun detail_lines :: "string option \<Rightarrow> line list" where
  "detail_lines None = []"
| "detail_lines (Some d) = (if d = [] then [] else [Detail d])"

definition pass :: "string \<Rightarrow> reporter \<Rightarrow> reporter" where
  "pass label r = r\<lparr>passed := passed r + 1, console := console r @ [Result Pass label]\<rparr>"

definition fail :: "string \<Rightarrow> string option \<Rightarrow> reporter \<Rightarrow> reporter" where
  "fail label detail r =
     r\<lparr>failed := failed r + 1,
       console := console r @ Result Fail label # detail_lines detail\<rparr>"

definition warn :: "string \<Rightarrow> string option \<Rightarrow> reporter \<Rightarrow> reporter" where
  "warn label detail r =
     r\<lparr>warnings := warnings r + 1,
       console := console r @ Result Warn label # detail_lines detail\<rparr>"

text \<open>\<open>check(label, condition, detail)\<close> exists in validate.mjs only.\<close>

definition check :: "string \<Rightarrow> bool \<Rightarrow> string option \<Rightarrow> reporter \<Rightarrow> reporter" where
  "check label condition detail r = (if condition then pass label r else fail label detail r)"

text \<open>\<open>xs.forEach(x => fail(label x, detail x))\<close>\<close>

fun fail_each :: "('a \<Rightarrow> string) \<Rightarrow> ('a \<Rightarrow> string option) \<Rightarrow> 'a list \<Rightarrow> reporter \<Rightarrow> reporter" where
  "fail_each label detail [] r = r"
| "fail_each label detail (x # xs) r = fail_each label detail xs (fail (label x) (detail x) r)"

text \<open>
  A recorded outcome, as the spec's Check Result triple, and the reporter call it stands
  for. A run is a sequence of such calls.
\<close>

type_synonym check_result = "outcome \<times> string \<times> string option"

fun record_result :: "check_result \<Rightarrow> reporter \<Rightarrow> reporter" where
  "record_result (Pass, label, detail) r = pass label r"
| "record_result (Fail, label, detail) r = fail label detail r"
| "record_result (Warn, label, detail) r = warn label detail r"

fun kind :: "check_result \<Rightarrow> outcome" where
  "kind (k, label, detail) = k"

fun record_all :: "check_result list \<Rightarrow> reporter \<Rightarrow> reporter" where
  "record_all [] r = r"
| "record_all (c # cs) r = record_all cs (record_result c r)"

subsection \<open>The summary and the exit code\<close>

datatype verdict = Success | SuccessWithWarnings | Failure

record finished =
  verdict :: verdict
  exit_code :: nat
  printed :: "line list"

text \<open>Template literals print a number in decimal.\<close>

definition digit :: "nat \<Rightarrow> char" where
  "digit n = ''0123456789'' ! n"

fun show_nat :: "nat \<Rightarrow> string" where
  "show_nat n = (if n < 10 then [digit n] else show_nat (n div 10) @ [digit (n mod 10)])"

declare show_nat.simps [simp del]

definition results_banner :: "reporter \<Rightarrow> line list" where
  "results_banner r =
     [Plain (replicate 50 CHR ''=''),
      Heading (''Results: '' @ show_nat (passed r) @ '' passed, '' @ show_nat (failed r)
               @ '' failed, '' @ show_nat (warnings r) @ '' warnings''),
      Plain (replicate 50 CHR ''='')]"

text \<open>validate.mjs, lines 455 to 468.\<close>

definition validate_summary :: "reporter \<Rightarrow> finished" where
  "validate_summary r =
     (if failed r > 0 then
        \<lparr>verdict = Failure, exit_code = 1,
         printed = console r @ results_banner r @ [Plain ''VALIDATION FAILED - Fix issues before deploying'']\<rparr>
      else if warnings r > 0 then
        \<lparr>verdict = SuccessWithWarnings, exit_code = 0,
         printed = console r @ results_banner r @ [Plain ''PASSED WITH WARNINGS - Review before deploying'']\<rparr>
      else
        \<lparr>verdict = Success, exit_code = 0,
         printed = console r @ results_banner r @ [Plain ''ALL CHECKS PASSED - Ready to deploy'']\<rparr>)"

text \<open>The browser QA script, lines 379 to 392.\<close>

definition qa_summary :: "reporter \<Rightarrow> finished" where
  "qa_summary r =
     (if failed r > 0 then
        \<lparr>verdict = Failure, exit_code = 1,
         printed = console r @ results_banner r @ [Plain ''BROWSER QA FAILED'']\<rparr>
      else if warnings r > 0 then
        \<lparr>verdict = SuccessWithWarnings, exit_code = 0,
         printed = console r @ results_banner r @ [Plain ''PASSED WITH WARNINGS'']\<rparr>
      else
        \<lparr>verdict = Success, exit_code = 0,
         printed = console r @ results_banner r @ [Plain ''ALL BROWSER CHECKS PASSED'']\<rparr>)"

section \<open>JavaScript strings\<close>

text \<open>\<open>s.startsWith(p)\<close>, \<open>s.endsWith(p)\<close>, \<open>s.includes(p)\<close>.\<close>

definition starts_with :: "string \<Rightarrow> string \<Rightarrow> bool" where
  "starts_with s p = prefix p s"

definition ends_with :: "string \<Rightarrow> string \<Rightarrow> bool" where
  "ends_with s p = suffix p s"

definition js_includes :: "string \<Rightarrow> string \<Rightarrow> bool" where
  "js_includes s p = sublist p s"

text \<open>
  The class \<open>\s\<close> of a regular expression and the characters removed by \<open>trim()\<close>:
  tab, line feed, vertical tab, form feed, carriage return, space and no-break space
  (the members of the class among the code units below 256).
\<close>

definition is_space :: "char \<Rightarrow> bool" where
  "is_space c = (c \<in> set [CHR 0x09, CHR 0x0A, CHR 0x0B, CHR 0x0C, CHR 0x0D, CHR 0x20, CHR 0xA0])"

text \<open>The characters that \<open>.\<close> does not match.\<close>

definition is_line_terminator :: "char \<Rightarrow> bool" where
  "is_line_terminator c = (c = CHR 0x0A \<or> c = CHR 0x0D)"

definition trim :: "string \<Rightarrow> string" where
  "trim s = rev (dropWhile is_space (rev (dropWhile is_space s)))"

definition squote :: char where
  "squote = CHR 0x27"

definition dquote :: char where
  "dquote = CHR 0x22"

text \<open>\<open>v || ''\<close> for a value that is a string or \<open>undefined\<close>.\<close>

fun or_empty :: "string option \<Rightarrow> string" where
  "or_empty None = []"
| "or_empty (Some s) = s"

text \<open>Truthiness of a value that is a string or \<open>undefined\<close>.\<close>

fun truthy :: "string option \<Rightarrow> bool" where
  "truthy None = False"
| "truthy (Some s) = (s \<noteq> [])"

text \<open>\<open>xs.join('\n')\<close>\<close>

fun join_lines :: "string list \<Rightarrow> string" where
  "join_lines [] = []"
| "join_lines [x] = x"
| "join_lines (x # y # ys) = x @ CHR 0x0A # join_lines (y # ys)"

text \<open>
  A regular expression without the sticky flag is tried at every start index from the
  left; the first index where it matches wins.
\<close>

fun first_match :: "(string \<Rightarrow> 'a option) \<Rightarrow> string \<Rightarrow> 'a option" where
  "first_match m [] = m []"
| "first_match m (c # cs) = (case m (c # cs) of Some x \<Rightarrow> Some x | None \<Rightarrow> first_match m cs)"

text \<open>
  \<open>s.replace(regex, '')\<close> without the global flag deletes the first match. The matcher
  gives the length of the match that starts at the head of its argument.
\<close>

fun replace_first :: "(string \<Rightarrow> nat option) \<Rightarrow> string \<Rightarrow> string" where
  "replace_first m [] = []"
| "replace_first m (c # cs) =
     (case m (c # cs) of Some n \<Rightarrow> drop n (c # cs) | None \<Rightarrow> c # replace_first m cs)"

text \<open>
  \<open>s.match(regex)\<close> with the global flag lists the matched texts from left to right;
  the search goes on where the last match ended, one further after an empty match.
\<close>

fun all_matches :: "(string \<Rightarrow> nat option) \<Rightarrow> string \<Rightarrow> string list" where
  "all_matches m s =
     (case m s of
        None \<Rightarrow> (case s of [] \<Rightarrow> [] | c # cs \<Rightarrow> all_matches m cs)
      | Some n \<Rightarrow> take n s # (if s = [] then [] else all_matches m (drop (max n 1) s)))"

declare all_matches.simps [simp del]

text \<open>
  \<open>/.*\//\<close> at the head of a string: \<open>.*\<close> is greedy and stays on one line, so the
  match ends at the last slash of the line.
\<close>

definition after_last_slash :: "string \<Rightarrow> string" where
  "after_last_slash l = rev (takeWhile (\<lambda>c. c \<noteq> CHR ''/'') (rev l))"

definition dirs_at :: "string \<Rightarrow> nat option" where
  "dirs_at s =
     (let l = takeWhile (\<lambda>c. \<not> is_line_terminator c) s
      in if CHR ''/'' \<in> set l then Some (length l - length (after_last_slash l)) else None)"

text \<open>\<open>src.replace(/.*\//, '')\<close>\<close>

definition file_name :: "string \<Rightarrow> string" where
  "file_name src = replace_first dirs_at src"

section \<open>The parsed document\<close>

text \<open>
  validate.mjs reads index.html and hands it to cheerio. cheerio is a dependency of the
  repository, not part of it, so the document is the raw text together with the answer
  of \<open>$(selector)\<close> for every selector string: the matched elements in document order.
  An element carries its attributes, its text content (\<open>.text()\<close>), its inner markup
  (\<open>.html()\<close>, which may be \<open>null\<close>) and the answer of \<open>$(el).find(selector)\<close>.
  \<open>on_disk p\<close> is \<open>existsSync(join(__dirname, p))\<close>.
\<close>

datatype element =
  Element (attrs: "(string \<times> string) list") (text_content: string) (inner_html: "string option")
    (find: "string \<Rightarrow> element list")

record document =
  html :: string
  select :: "string \<Rightarrow> element list"
  on_disk :: "string \<Rightarrow> bool"

text \<open>\<open>$(el).attr(name)\<close>: \<open>undefined\<close> when the attribute is not there.\<close>

definition attr :: "element \<Rightarrow> string \<Rightarrow> string option" where
  "attr el name = map_of (attrs el) name"

text \<open>\<open>$(selector).attr(name)\<close> reads the first matched element.\<close>

fun attr_of :: "element list \<Rightarrow> string \<Rightarrow> string option" where
  "attr_of [] name = None"
| "attr_of (el # els) name = attr el name"

text \<open>\<open>$(selector).text()\<close> joins the text of every matched element.\<close>

definition text_of :: "element list \<Rightarrow> string" where
  "text_of els = concat (map text_content els)"

section \<open>validate.mjs, group 1: meta tags\<close>

text \<open>
  The shape rules that \<open>MetaSchema\<close> uses: \<open>z.literal(v)\<close>, \<open>z.string().includes(v)\<close>
  and \<open>z.string().min(n)\<close>. \<open>safeParse\<close> visits the keys of the schema in order and
  gives one issue (path and message) for each value that breaks its rule; the wording
  of zod's default messages is a parameter.
\<close>

datatype rule = Literal string | Includes string | MinLength nat

fun satisfies :: "rule \<Rightarrow> string \<Rightarrow> bool" where
  "satisfies (Literal v) x = (x = v)"
| "satisfies (Includes v) x = js_includes x v"
| "satisfies (MinLength n) x = (n \<le> length x)"

definition MetaSchema :: "(string \<times> rule) list" where
  "MetaSchema =
     [(''charset'', Literal ''UTF-8''),
      (''viewport'', Includes ''width=device-width''),
      (''title'', MinLength 10),
      (''description'', MinLength 50),
      (''ogTitle'', MinLength 5),
      (''ogDescription'', MinLength 20),
      (''ogType'', Literal ''website''),
      (''ogLocale'', Literal ''pt_BR''),
      (''ogImage'', MinLength 1),
      (''lang'', Literal ''pt-BR'')]"

type_synonym issue = "string \<times> string"

fun safeParse :: "(rule \<Rightarrow> string) \<Rightarrow> (string \<times> rule) list \<Rightarrow> (string \<rightharpoonup> string) \<Rightarrow> issue list" where
  "safeParse message [] data = []"
| "safeParse message ((key, rl) # schema) data =
     (case data key of
        Some v \<Rightarrow> if satisfies rl v then [] else [(key, message rl)]
      | None \<Rightarrow> [(key, message rl)])
     @ safeParse message schema data"

definition metaData :: "document \<Rightarrow> (string \<times> string) list" where
  \<open>metaData doc =
     [(''charset'', or_empty (attr_of (select doc ''meta[charset]'') ''charset'')),
      (''viewport'', or_empty (attr_of (select doc ''meta[name="viewport"]'') ''content'')),
      (''title'', or_empty (Some (text_of (select doc ''title'')))),
      (''description'', or_empty (attr_of (select doc ''meta[name="description"]'') ''content'')),
      (''ogTitle'', or_empty (attr_of (select doc ''meta[property="og:title"]'') ''content'')),
      (''ogDescription'', or_empty (attr_of (select doc ''meta[property="og:description"]'') ''content'')),
      (''ogType'', or_empty (attr_of (select doc ''meta[property="og:type"]'') ''content'')),
      (''ogLocale'', or_empty (attr_of (select doc ''meta[property="og:locale"]'') ''content'')),
      (''ogImage'', or_empty (attr_of (select doc ''meta[property="og:image"]'') ''content'')),
      (''lang'', or_empty (attr_of (select doc ''html'') ''lang''))]\<close>

definition meta_check :: "(rule \<Rightarrow> string) \<Rightarrow> document \<Rightarrow> reporter \<Rightarrow> reporter" where
  "meta_check message doc r =
     (let issues = safeParse message MetaSchema (map_of (metaData doc));
          r1 = log (Heading ''1. Meta Tags'') r
      in if issues = [] then pass ''All meta tags valid'' r1
         else fail_each (\<lambda>i. ''Meta: '' @ fst i) (\<lambda>i. Some (snd i)) issues r1)"

text \<open>
  Where each field of \<open>metaData\<close> comes from: the selector and the attribute read from
  its first match. The title is the text of the \<open>title\<close> elements instead.
\<close>

definition meta_attribute_fields :: "(string \<times> string \<times> string) list" where
  \<open>meta_attribute_fields =
     [(''charset'', ''meta[charset]'', ''charset''),
      (''viewport'', ''meta[name="viewport"]'', ''content''),
      (''description'', ''meta[name="description"]'', ''content''),
      (''ogTitle'', ''meta[property="og:title"]'', ''content''),
      (''ogDescription'', ''meta[property="og:description"]'', ''content''),
      (''ogType'', ''meta[property="og:type"]'', ''content''),
      (''ogLocale'', ''meta[property="og:locale"]'', ''content''),
      (''ogImage'', ''meta[property="og:image"]'', ''content''),
      (''lang'', ''html'', ''lang'')]\<close>

definition meta_absent :: "document \<Rightarrow> string \<Rightarrow> bool" where
  "meta_absent doc key =
     ((\<exists>sel a. (key, sel, a) \<in> set meta_attribute_fields \<and> attr_of (select doc sel) a = None)
      \<or> (key = ''title'' \<and> select doc ''title'' = []))"

section \<open>validate.mjs, group 3: agent cards\<close>

text \<open>Lines 184 to 193: the loop over \<open>$('.sobre-card')\<close> and the statement after it.\<close>

definition card_detail :: "string \<Rightarrow> string \<Rightarrow> nat \<Rightarrow> string" where
  "card_detail label title tags =
     ''label='' @ [dquote] @ take 20 label @ [dquote] @ '' title='' @ [dquote] @ take 20 title
       @ [dquote] @ '' tags='' @ show_nat tags"

fun agent_cards_each :: "nat \<Rightarrow> element list \<Rightarrow> reporter \<Rightarrow> reporter" where
  "agent_cards_each i [] r = r"
| "agent_cards_each i (c # cards) r =
     (let label = trim (text_of (find c ''.tracking-widest''));
          title = trim (text_of (find c ''h4''));
          body = trim (text_of (find c ''p:not(.tracking-widest)''));
          tags = length (find c ''.flex-wrap span'')
      in agent_cards_each (i + 1) cards
           (if label = [] \<or> title = [] \<or> body = [] \<or> tags < 3
            then fail (''Agent card '' @ show_nat i @ '' incomplete'') (Some (card_detail label title tags)) r
            else r))"

definition agent_cards_check :: "document \<Rightarrow> reporter \<Rightarrow> reporter" where
  "agent_cards_check doc r =
     pass ''All agent cards have label, title, body, and tags''
       (agent_cards_each 0 (select doc ''.sobre-card'') r)"

text \<open>What line 189 tests, for one card.\<close>

definition card_complete :: "element \<Rightarrow> bool" where
  "card_complete c =
     (trim (text_of (find c ''.tracking-widest'')) \<noteq> []
      \<and> trim (text_of (find c ''h4'')) \<noteq> []
      \<and> trim (text_of (find c ''p:not(.tracking-widest)'')) \<noteq> []
      \<and> 3 \<le> length (find c ''.flex-wrap span''))"

section \<open>validate.mjs, group 4: asset files\<close>

text \<open>A \<open>Set\<close> keeps its members in the order of their first insertion.\<close>

definition set_add :: "'a \<Rightarrow> 'a list \<Rightarrow> 'a list" where
  "set_add x xs = (if x \<in> set xs then xs else xs @ [x])"

definition is_quote :: "char \<Rightarrow> bool" where
  "is_quote c = (c = squote \<or> c = dquote)"

text \<open>The class \<open>[^'")\s]\<close>.\<close>

definition url_char :: "char \<Rightarrow> bool" where
  "url_char c = (\<not> is_quote c \<and> c \<noteq> CHR '')'' \<and> \<not> is_space c)"

definition quote_len :: "string \<Rightarrow> nat" where
  "quote_len s = (case s of [] \<Rightarrow> 0 | c # cs \<Rightarrow> if is_quote c then 1 else 0)"

text \<open>
  \<open>/url\(['"]?([^'")\s]+)['"]?\)/\<close> at the head of a string. An optional quote that is
  there is taken, and the run of the class is the longest one: giving either back
  leaves a character that nothing after it in the pattern can match.
\<close>

definition url_at :: "string \<Rightarrow> nat option" where
  "url_at s =
     (if prefix ''url('' s then
        (let s1 = drop 4 s;
             q1 = quote_len s1;
             s2 = drop q1 s1;
             run = takeWhile url_char s2;
             s3 = dropWhile url_char s2;
             q2 = quote_len s3
         in if run \<noteq> [] \<and> prefix '')'' (drop q2 s3)
            then Some (4 + q1 + length run + q2 + 1) else None)
      else None)"

text \<open>\<open>/url\(['"]?/\<close> and \<open>/['"]?\)/\<close> at the head of a string.\<close>

definition url_open_at :: "string \<Rightarrow> nat option" where
  "url_open_at s = (if prefix ''url('' s then Some (4 + quote_len (drop 4 s)) else None)"

definition url_close_at :: "string \<Rightarrow> nat option" where
  "url_close_at s =
     (if prefix '')'' (drop (quote_len s) s) then Some (quote_len s + 1)
      else if prefix '')'' s then Some 1 else None)"

fun add_img_assets :: "element list \<Rightarrow> string list \<Rightarrow> string list" where
  "add_img_assets [] localAssets = localAssets"
| "add_img_assets (el # els) localAssets =
     add_img_assets els
       (let src = attr el ''src''
        in if truthy src \<and> \<not> starts_with (or_empty src) ''http'' \<and> \<not> starts_with (or_empty src) ''data:''
           then set_add (or_empty src) localAssets else localAssets)"

fun add_link_assets :: "element list \<Rightarrow> string list \<Rightarrow> string list" where
  "add_link_assets [] localAssets = localAssets"
| "add_link_assets (el # els) localAssets =
     add_link_assets els
       (let href = attr el ''href''
        in if truthy href \<and> \<not> starts_with (or_empty href) ''http'' \<and> \<not> starts_with (or_empty href) ''#''
           then set_add (or_empty href) localAssets else localAssets)"

fun add_url_assets :: "string list \<Rightarrow> string list \<Rightarrow> string list" where
  "add_url_assets [] localAssets = localAssets"
| "add_url_assets (m # ms) localAssets =
     add_url_assets ms
       (let url = replace_first url_close_at (replace_first url_open_at m)
        in if \<not> starts_with url ''http'' \<and> \<not> starts_with url ''data:''
           then set_add url localAssets else localAssets)"

definition localAssets :: "document \<Rightarrow> string list" where
  "localAssets doc =
     add_url_assets (all_matches url_at (html doc))
       (add_link_assets (select doc ''link[href]'')
         (add_img_assets (select doc ''img[src]'') []))"

definition missingAssets :: "document \<Rightarrow> string list" where
  "missingAssets doc = filter (\<lambda>asset. \<not> on_disk doc asset) (localAssets doc)"

definition assets_check :: "document \<Rightarrow> reporter \<Rightarrow> reporter" where
  "assets_check doc r =
     (let r1 = log (Heading ''4. Asset Files'') r
      in if missingAssets doc = []
         then pass (''All '' @ show_nat (length (localAssets doc)) @ '' local assets exist on disk'') r1
         else fail_each (\<lambda>a. ''Missing asset: '' @ a) (\<lambda>a. None) (missingAssets doc) r1)"

text \<open>
  Every value handed to \<open>localAssets.add\<close>, in the order of the calls and with its
  repetitions.
\<close>

definition img_refs :: "element list \<Rightarrow> string list" where
  "img_refs els =
     map (\<lambda>el. or_empty (attr el ''src''))
       (filter (\<lambda>el. truthy (attr el ''src'')
                  \<and> \<not> starts_with (or_empty (attr el ''src'')) ''http''
                  \<and> \<not> starts_with (or_empty (attr el ''src'')) ''data:'') els)"

definition link_refs :: "element list \<Rightarrow> string list" where
  "link_refs els =
     map (\<lambda>el. or_empty (attr el ''href''))
       (filter (\<lambda>el. truthy (attr el ''href'')
                  \<and> \<not> starts_with (or_empty (attr el ''href'')) ''http''
                  \<and> \<not> starts_with (or_empty (attr el ''href'')) ''#'') els)"

definition url_refs :: "string list \<Rightarrow> string list" where
  "url_refs ms =
     filter (\<lambda>url. \<not> starts_with url ''http'' \<and> \<not> starts_with url ''data:'')
       (map (\<lambda>m. replace_first url_close_at (replace_first url_open_at m)) ms)"

definition referenced :: "document \<Rightarrow> string list" where
  "referenced doc =
     img_refs (select doc ''img[src]'') @ link_refs (select doc ''link[href]'')
       @ url_refs (all_matches url_at (html doc))"

section \<open>validate.mjs, group 6: images\<close>

record img_issues =
  missingAlt :: "string list"
  missingDimensions :: "string list"
  lazyWithoutDimensions :: "string list"

fun img_each :: "element list \<Rightarrow> img_issues \<Rightarrow> img_issues" where
  "img_each [] imgIssues = imgIssues"
| "img_each (el # els) imgIssues =
     (let src = or_empty (attr el ''src'');
          alt = attr el ''alt'';
          width = attr el ''width'';
          height = attr el ''height'';
          loading = attr el ''loading''
      in if starts_with src ''data:'' \<or> src = [] then img_each els imgIssues
         else
           (let isSvg = ends_with src ''.svg'';
                i1 = (if alt = None
                      then imgIssues\<lparr>missingAlt := missingAlt imgIssues @ [file_name src]\<rparr>
                      else imgIssues);
                i2 = (if loading = Some ''lazy'' \<and> (\<not> truthy width \<or> \<not> truthy height) \<and> \<not> isSvg
                      then i1\<lparr>lazyWithoutDimensions := lazyWithoutDimensions i1 @ [file_name src]\<rparr>
                      else i1)
            in img_each els i2))"

definition images_check :: "document \<Rightarrow> reporter \<Rightarrow> reporter" where
  "images_check doc r =
     (let imgIssues = img_each (select doc ''img'')
            \<lparr>missingAlt = [], missingDimensions = [], lazyWithoutDimensions = []\<rparr>;
          r1 = log (Heading ''6. Images'') r;
          r2 = (if missingAlt imgIssues = [] then pass ''All images have alt attributes'' r1
                else fail_each (\<lambda>i. ''Missing alt: '' @ i) (\<lambda>i. None) (missingAlt imgIssues) r1)
      in if lazyWithoutDimensions imgIssues = []
         then pass ''All lazy-loaded images have width/height'' r2
         else fail_each (\<lambda>i. ''Lazy image without dimensions: '' @ i)
                (\<lambda>i. Some ''Browser may not load images in collapsed containers'')
                (lazyWithoutDimensions imgIssues) r2)"

text \<open>
  The conditions of lines 275, 280 and 284 for one image: whether the loop looks at it,
  and whether it then enters each list.
\<close>

definition img_examined :: "element \<Rightarrow> bool" where
  "img_examined el =
     (\<not> starts_with (or_empty (attr el ''src'')) ''data:'' \<and> or_empty (attr el ''src'') \<noteq> [])"

definition img_missing_alt :: "element \<Rightarrow> bool" where
  "img_missing_alt el = (img_examined el \<and> attr el ''alt'' = None)"

definition img_lazy_without_dimensions :: "element \<Rightarrow> bool" where
  "img_lazy_without_dimensions el =
     (img_examined el \<and> attr el ''loading'' = Some ''lazy''
      \<and> (\<not> truthy (attr el ''width'') \<or> \<not> truthy (attr el ''height''))
      \<and> \<not> ends_with (or_empty (attr el ''src'')) ''.svg'')"

definition img_name :: "element \<Rightarrow> string" where
  "img_name el = file_name (or_empty (attr el ''src''))"

section \<open>validate.mjs, groups 7 and 8: the inline scripts\<close>

definition allJs :: "document \<Rightarrow> string" where
  "allJs doc = join_lines (map (\<lambda>el. or_empty (inner_html el)) (select doc ''script:not([src])''))"

definition single_quoted :: "string \<Rightarrow> string" where
  "single_quoted s = squote # s @ [squote]"

definition double_quoted :: "string \<Rightarrow> string" where
  "double_quoted s = dquote # s @ [dquote]"

text \<open>Lines 344 and 345.\<close>

definition hasLocalStorageLang :: "string \<Rightarrow> bool" where
  "hasLocalStorageLang js =
     (js_includes js (''localStorage.getItem('' @ single_quoted ''zenLang'' @ '')'')
      \<or> js_includes js (''localStorage.getItem('' @ double_quoted ''zenLang'' @ '')''))"

definition local_storage_check :: "string \<Rightarrow> reporter \<Rightarrow> reporter" where
  "local_storage_check js r =
     check ''No localStorage language auto-restore on load'' (\<not> hasLocalStorageLang js)
       (Some ''Page must always open in Portuguese'') r"

text \<open>Line 348.\<close>

definition default_lang_check :: "string \<Rightarrow> reporter \<Rightarrow> reporter" where
  "default_lang_check js r =
     check (''Default currentLang is '' @ double_quoted ''pt'')
       (js_includes js (''let currentLang = '' @ single_quoted ''pt'')
        \<or> js_includes js (''let currentLang = '' @ double_quoted ''pt''))
       None r"

text \<open>
  \<open>\];\s*\n\<close> at the head of a string: the white space after the semicolon must hold a
  line feed. \<open>([\s\S]*?)\];\s*\n\<close> is lazy: the capture ends at the first place where
  that holds.
\<close>

definition closes_at :: "string \<Rightarrow> bool" where
  "closes_at s = (prefix ''];'' s \<and> CHR 0x0A \<in> set (takeWhile is_space (drop 2 s)))"

fun lazy_capture :: "string \<Rightarrow> string option" where
  "lazy_capture [] = None"
| "lazy_capture (c # cs) =
     (if closes_at (c # cs) then Some [] else map_option ((#) c) (lazy_capture cs))"

text \<open>\<open>\s*=\s*\[([\s\S]*?)\];\s*\n\<close> at the head of a string.\<close>

definition assigned_array :: "string \<Rightarrow> string option" where
  "assigned_array s =
     (case dropWhile is_space s of
        [] \<Rightarrow> None
      | c # s1 \<Rightarrow>
          if c = CHR ''='' then
            (case dropWhile is_space s1 of
               [] \<Rightarrow> None
             | d # s2 \<Rightarrow> if d = CHR ''['' then lazy_capture s2 else None)
          else None)"

text \<open>\<open>/var chatData\s*=\s*\[([\s\S]*?)\];\s*\n/\<close> at the head of a string: group 1.\<close>

definition pt_chat_at :: "string \<Rightarrow> string option" where
  "pt_chat_at s = (if prefix ''var chatData'' s then assigned_array (drop 12 s) else None)"

text \<open>\<open>/(?:const|var|let)\s+chatDataEN\s*=\s*\[([\s\S]*?)\];\s*\n/\<close> at the head of a string.\<close>

definition after_keyword :: "string \<Rightarrow> string option" where
  "after_keyword s =
     (if prefix ''const'' s then Some (drop 5 s)
      else if prefix ''var'' s then Some (drop 3 s)
      else if prefix ''let'' s then Some (drop 3 s)
      else None)"

definition en_chat_at :: "string \<Rightarrow> string option" where
  "en_chat_at s =
     (case after_keyword s of
        None \<Rightarrow> None
      | Some s1 \<Rightarrow>
          if takeWhile is_space s1 \<noteq> [] \<and> prefix ''chatDataEN'' (dropWhile is_space s1)
          then assigned_array (drop 10 (dropWhile is_space s1))
          else None)"

text \<open>\<open>/\{\s*messages:/\<close> at the head of a string.\<close>

definition marker_at :: "string \<Rightarrow> nat option" where
  "marker_at s =
     (case s of
        [] \<Rightarrow> None
      | c # cs \<Rightarrow>
          if c = CHR ''{'' \<and> prefix ''messages:'' (dropWhile is_space cs)
          then Some (1 + length (takeWhile is_space cs) + 9)
          else None)"

definition conv_count :: "string \<Rightarrow> nat" where
  "conv_count body = length (all_matches marker_at body)"

text \<open>Lines 357 to 363 and 366 to 372.\<close>

definition pt_chat_check :: "string \<Rightarrow> reporter \<Rightarrow> reporter" where
  "pt_chat_check js r =
     (case first_match pt_chat_at js of
        Some body \<Rightarrow>
          check ''PT chat data has 4 conversations'' (conv_count body = 4)
            (Some (''Found '' @ show_nat (conv_count body))) r
      | None \<Rightarrow> fail ''PT chatData not found'' None r)"

definition en_chat_check :: "string \<Rightarrow> reporter \<Rightarrow> reporter" where
  "en_chat_check js r =
     (case first_match en_chat_at js of
        Some body \<Rightarrow>
          check ''EN chat data has 4 conversations'' (conv_count body = 4)
            (Some (''Found '' @ show_nat (conv_count body))) r
      | None \<Rightarrow> fail ''EN chatDataEN not found'' None r)"

definition chat_data_check :: "string \<Rightarrow> reporter \<Rightarrow> reporter" where
  "chat_data_check js r = en_chat_check js (pt_chat_check js (log (Heading ''8. Chat Data'') r))"

text \<open>
  What the two patterns look for, said without a matcher. After the name of the variable
  come optional white space, \<open>=\<close>, optional white space, \<open>[\<close>, the body of the array,
  \<open>];\<close>, and white space up to a line feed. The English array is declared with
  \<open>const\<close>, \<open>var\<close> or \<open>let\<close> and white space before the name. A conversation marker is
  an opening brace, optional white space and \<open>messages:\<close>; \<open>marker_count\<close> counts the
  places of a text where one starts.
\<close>

definition array_assigned :: "string \<Rightarrow> string \<Rightarrow> bool" where
  "array_assigned s body =
     (\<exists>ws1 ws2 ws3 post.
        s = ws1 @ ''='' @ ws2 @ ''['' @ body @ ''];'' @ ws3 @ CHR 0x0A # post
        \<and> list_all is_space ws1 \<and> list_all is_space ws2 \<and> list_all is_space ws3)"

definition marker_here :: "string \<Rightarrow> bool" where
  "marker_here s = (\<exists>ws rest. s = ''{'' @ ws @ ''messages:'' @ rest \<and> list_all is_space ws)"

definition en_declared :: "string \<Rightarrow> string \<Rightarrow> bool" where
  "en_declared s body =
     (\<exists>kw ws tail.
        s = kw @ ws @ ''chatDataEN'' @ tail \<and> kw \<in> set [''const'', ''var'', ''let'']
        \<and> ws \<noteq> [] \<and> list_all is_space ws \<and> array_assigned tail body)"

fun marker_count :: "string \<Rightarrow> nat" where
  "marker_count [] = 0"
| "marker_count (c # cs) = (if marker_here (c # cs) then 1 else 0) + marker_count cs"

text \<open>
  The outcome that the chat-data group is to record for one language variant, as a
  function of the search for that variant's array alone: a Fail when the array is not
  found, a Pass when it holds exactly 4 conversation markers, and otherwise a Fail that
  reports the count.
\<close>

definition variant_outcome :: "string \<Rightarrow> string \<Rightarrow> string option \<Rightarrow> check_result" where
  "variant_outcome found_label missing_label m =
     (case m of
        None \<Rightarrow> (Fail, missing_label, None)
      | Some body \<Rightarrow>
          if conv_count body = 4 then (Pass, found_label, None)
          else (Fail, found_label, Some (''Found '' @ show_nat (conv_count body))))"

section \<open>The browser QA script\<close>

text \<open>
  The script drives a browser through Playwright, which is not part of the repository.
  Every awaited call either rejects with an error, of which the script only reads the
  message, or resolves to a value; what each call does in a run is given by a record of
  such answers. Values computed inside the page by \<open>page.evaluate\<close> are answers as well.
  The state of a run is the reporter together with the number of browsing contexts that
  have been created and not closed.
\<close>

datatype 'a awaited = Throws string | Returns 'a

record qa_state =
  rep :: reporter
  open_contexts :: nat

datatype qa_result = Completed qa_state | Rejected string qa_state

fun await :: "'a awaited \<Rightarrow> qa_state \<Rightarrow> ('a \<Rightarrow> qa_result) \<Rightarrow> qa_result" where
  "await (Throws e) s k = Rejected e s"
| "await (Returns v) s k = k v"

fun and_then :: "qa_result \<Rightarrow> (qa_state \<Rightarrow> qa_result) \<Rightarrow> qa_result" where
  "and_then (Completed s) k = k s"
| "and_then (Rejected e s) k = Rejected e s"

definition report :: "(reporter \<Rightarrow> reporter) \<Rightarrow> qa_state \<Rightarrow> qa_state" where
  "report f s = s\<lparr>rep := f (rep s)\<rparr>"

definition context_opened :: "qa_state \<Rightarrow> qa_state" where
  "context_opened s = s\<lparr>open_contexts := open_contexts s + 1\<rparr>"

definition context_closed :: "qa_state \<Rightarrow> qa_state" where
  "context_closed s = s\<lparr>open_contexts := open_contexts s - 1\<rparr>"

record viewport =
  vp_name :: string
  vp_width :: nat
  vp_height :: nat

record page =
  pg_name :: string
  pg_path :: string

definition VIEWPORTS :: "viewport list" where
  "VIEWPORTS =
     [\<lparr>vp_name = ''Mobile (iPhone 14)'', vp_width = 390, vp_height = 844\<rparr>,
      \<lparr>vp_name = ''Tablet (iPad)'', vp_width = 768, vp_height = 1024\<rparr>,
      \<lparr>vp_name = ''Desktop'', vp_width = 1280, vp_height = 800\<rparr>,
      \<lparr>vp_name = ''Wide Desktop'', vp_width = 1920, vp_height = 1080\<rparr>]"

definition PAGES :: "page list" where
  "PAGES =
     [\<lparr>pg_name = ''Home'', pg_path = ''/''\<rparr>,
      \<lparr>pg_name = ''Privacy Policy'', pg_path = ''/privacidade/''\<rparr>,
      \<lparr>pg_name = ''Privacy PDF'', pg_path = ''/legal/politica-privacidade.html''\<rparr>]"

definition show_int :: "int \<Rightarrow> string" where
  "show_int i = (if i < 0 then CHR ''-'' # show_nat (nat (- i)) else show_nat (nat i))"

text \<open>\<open>Math.round\<close> on a finite number.\<close>

definition js_round :: "rat \<Rightarrow> int" where
  "js_round q = \<lfloor>q + 1 / 2\<rfloor>"

subsection \<open>1. Page load, once for each page\<close>

record load_probe =
  load_newContext :: "unit awaited"
  load_newPage :: "unit awaited"
  load_goto :: "nat option awaited"
  load_pageerrors :: "string list"
  load_close :: "unit awaited"

text \<open>\<open>response?.status()\<close> is a number or \<open>undefined\<close>.\<close>

fun show_status :: "nat option \<Rightarrow> string" where
  "show_status None = ''undefined''"
| "show_status (Some n) = show_nat n"

definition load_outcomes :: "page \<Rightarrow> load_probe \<Rightarrow> reporter \<Rightarrow> reporter" where
  "load_outcomes pg p r =
     (case load_goto p of
        Returns status \<Rightarrow>
          (let r1 = (if status = Some 200
                     then pass (pg_name pg @ '' loads (HTTP '' @ show_status status @ '')'') r
                     else fail (pg_name pg @ '' load'') (Some (''HTTP '' @ show_status status)) r)
           in if load_pageerrors p = [] then pass (pg_name pg @ '' - no JS errors'') r1
              else fail_each (\<lambda>e. pg_name pg @ '' JS error'') Some (load_pageerrors p) r1)
      | Throws e \<Rightarrow> fail (pg_name pg @ '' load'') (Some e) r)"

definition load_check :: "page \<Rightarrow> load_probe \<Rightarrow> qa_state \<Rightarrow> qa_result" where
  "load_check pg p s =
     await (load_newContext p) s (\<lambda>_.
     await (load_newPage p) (context_opened s) (\<lambda>_.
     await (load_close p) (report (load_outcomes pg p) (context_opened s)) (\<lambda>_.
     Completed (context_closed (report (load_outcomes pg p) (context_opened s))))))"

fun load_checks :: "(page \<Rightarrow> load_probe) \<Rightarrow> page list \<Rightarrow> qa_state \<Rightarrow> qa_result" where
  "load_checks probe [] s = Completed s"
| "load_checks probe (pg # pgs) s = and_then (load_check pg (probe pg) s) (load_checks probe pgs)"

subsection \<open>2. Responsive layout, once for each viewport\<close>

datatype phone_check = PhoneMissing | PhoneFound string rat rat

record layout_probe =
  layout_newContext :: "unit awaited"
  layout_newPage :: "unit awaited"
  layout_goto :: "unit awaited"
  layout_overflow :: "(int \<times> int) awaited"
  layout_navVisible :: "bool awaited"
  layout_phoneCheck :: "phone_check awaited"
  layout_footerVisible :: "bool awaited"
  layout_close :: "unit awaited"

definition overflow_outcome :: "viewport \<Rightarrow> int \<times> int \<Rightarrow> reporter \<Rightarrow> reporter" where
  "overflow_outcome vp overflow r =
     (if fst overflow \<le> snd overflow
      then pass (vp_name vp @ '' ('' @ show_nat (vp_width vp) @ ''px) - no horizontal overflow'') r
      else fail (vp_name vp @ '' ('' @ show_nat (vp_width vp) @ ''px) - horizontal overflow'')
             (Some (''body='' @ show_int (fst overflow) @ ''px > viewport='' @ show_int (snd overflow) @ ''px'')) r)"

definition nav_outcome :: "viewport \<Rightarrow> bool \<Rightarrow> reporter \<Rightarrow> reporter" where
  "nav_outcome vp navVisible r =
     (if navVisible then pass (vp_name vp @ '' - nav visible'') r
      else fail (vp_name vp @ '' - nav not visible'') None r)"

fun phone_outcome :: "viewport \<Rightarrow> phone_check \<Rightarrow> reporter \<Rightarrow> reporter" where
  "phone_outcome vp PhoneMissing r = fail (vp_name vp @ '' - phone mockup hidden or collapsed'') None r"
| "phone_outcome vp (PhoneFound display w h) r =
     (if display \<noteq> ''none'' \<and> w > 0
      then pass (vp_name vp @ '' - phone mockup visible ('' @ show_int (js_round w) @ ''x''
                 @ show_int (js_round h) @ '')'') r
      else fail (vp_name vp @ '' - phone mockup hidden or collapsed'') None r)"

definition footer_outcome :: "viewport \<Rightarrow> bool \<Rightarrow> reporter \<Rightarrow> reporter" where
  "footer_outcome vp footerVisible r =
     (if footerVisible then pass (vp_name vp @ '' - footer accessible'') r
      else fail (vp_name vp @ '' - footer not accessible'') None r)"

definition layout_check :: "viewport \<Rightarrow> layout_probe \<Rightarrow> qa_state \<Rightarrow> qa_result" where
  "layout_check vp p s =
     await (layout_newContext p) s (\<lambda>_.
     await (layout_newPage p) (context_opened s) (\<lambda>_.
     await (layout_goto p) (context_opened s) (\<lambda>_.
     await (layout_overflow p) (context_opened s) (\<lambda>overflow.
     let s1 = report (overflow_outcome vp overflow) (context_opened s) in
     await (layout_navVisible p) s1 (\<lambda>navVisible.
     let s2 = report (nav_outcome vp navVisible) s1 in
     await (layout_phoneCheck p) s2 (\<lambda>phoneCheck.
     let s3 = report (phone_outcome vp phoneCheck) s2 in
     await (layout_footerVisible p) s3 (\<lambda>footerVisible.
     let s4 = report (footer_outcome vp footerVisible) s3 in
     await (layout_close p) s4 (\<lambda>_.
     Completed (context_closed s4)))))))))"

fun layout_checks :: "(viewport \<Rightarrow> layout_probe) \<Rightarrow> viewport list \<Rightarrow> qa_state \<Rightarrow> qa_result" where
  "layout_checks probe [] s = Completed s"
| "layout_checks probe (vp # vps) s = and_then (layout_check vp (probe vp) s) (layout_checks probe vps)"

text \<open>
  The message of the first probing call of a responsive-layout pass that rejects, if one
  does: the navigation and the four evaluations, in the order of the script.
\<close>

fun thrown :: "'a awaited \<Rightarrow> string option" where
  "thrown (Throws e) = Some e"
| "thrown (Returns v) = None"

fun first_thrown :: "string option list \<Rightarrow> string option" where
  "first_thrown [] = None"
| "first_thrown (None # es) = first_thrown es"
| "first_thrown (Some e # es) = Some e"

definition layout_probe_error :: "layout_probe \<Rightarrow> string option" where
  "layout_probe_error p =
     first_thrown [thrown (layout_goto p), thrown (layout_overflow p), thrown (layout_navVisible p),
       thrown (layout_phoneCheck p), thrown (layout_footerVisible p)]"

subsection \<open>3. Images\<close>

record images_probe =
  images_newContext :: "unit awaited"
  images_newPage :: "unit awaited"
  images_goto :: "unit awaited"
  images_scroll :: "unit awaited"
  images_wait :: "unit awaited"
  images_broken :: "string list awaited"
  images_close :: "unit awaited"

definition qa_images_check :: "images_probe \<Rightarrow> qa_state \<Rightarrow> qa_result" where
  "qa_images_check p s =
     await (images_newContext p) s (\<lambda>_.
     await (images_newPage p) (context_opened s) (\<lambda>_.
     await (images_goto p) (context_opened s) (\<lambda>_.
     await (images_scroll p) (context_opened s) (\<lambda>_.
     await (images_wait p) (context_opened s) (\<lambda>_.
     await (images_broken p) (context_opened s) (\<lambda>brokenImages.
     let s1 = report (if brokenImages = [] then pass ''All images loaded after full scroll''
                      else fail_each (\<lambda>img. ''Broken image: '' @ img) (\<lambda>img. None) brokenImages)
                (context_opened s) in
     await (images_close p) s1 (\<lambda>_.
     Completed (context_closed s1))))))))"

subsection \<open>4. Language switching\<close>

record lang_state =
  ls_lang :: string
  ls_title :: string
  ls_h1 :: "string option"

record language_probe =
  language_newContext :: "unit awaited"
  language_newPage :: "unit awaited"
  language_goto :: "unit awaited"
  language_default :: "string awaited"
  language_switch_en :: "unit awaited"
  language_wait_en :: "unit awaited"
  language_enState :: "lang_state awaited"
  language_switch_pt :: "unit awaited"
  language_wait_pt :: "unit awaited"
  language_ptState :: "lang_state awaited"
  language_stress :: "string list awaited"
  language_close :: "unit awaited"

text \<open>\<open>st.h1?.includes(text)\<close> is falsy when the heading is missing.\<close>

definition h1_includes :: "lang_state \<Rightarrow> string \<Rightarrow> bool" where
  "h1_includes st t = (case ls_h1 st of None \<Rightarrow> False | Some h \<Rightarrow> js_includes h t)"

text \<open>\<open>JSON.stringify\<close> is the parameter \<open>stringify\<close>.\<close>

definition language_check :: "(lang_state \<Rightarrow> string) \<Rightarrow> language_probe \<Rightarrow> qa_state \<Rightarrow> qa_result" where
  "language_check stringify p s =
     await (language_newContext p) s (\<lambda>_.
     await (language_newPage p) (context_opened s) (\<lambda>_.
     await (language_goto p) (context_opened s) (\<lambda>_.
     await (language_default p) (context_opened s) (\<lambda>defaultLang.
     let s1 = report (if defaultLang = ''pt-BR'' then pass ''Default language is pt-BR''
                      else fail ''Default language'' (Some (''Expected pt-BR, got '' @ defaultLang)))
                (context_opened s) in
     await (language_switch_en p) s1 (\<lambda>_.
     await (language_wait_en p) s1 (\<lambda>_.
     await (language_enState p) s1 (\<lambda>enState.
     let s2 = report (if ls_lang enState = ''en'' \<and> h1_includes enState ''Your financial''
                      then pass ''Switch to English works''
                      else fail ''Switch to English'' (Some (stringify enState))) s1 in
     await (language_switch_pt p) s2 (\<lambda>_.
     await (language_wait_pt p) s2 (\<lambda>_.
     await (language_ptState p) s2 (\<lambda>ptState.
     let s3 = report (if ls_lang ptState = ''pt-BR'' \<and> h1_includes ptState ''Sua vida''
                      then pass ''Switch back to Portuguese works''
                      else fail ''Switch back to Portuguese'' (Some (stringify ptState))) s2 in
     await (language_stress p) s3 (\<lambda>stressErrors.
     let s4 = report (if stressErrors = []
                      then pass ''Rapid language switching (10 cycles) - no errors''
                      else fail_each (\<lambda>e. ''Stress test error'') Some stressErrors) s3 in
     await (language_close p) s4 (\<lambda>_.
     Completed (context_closed s4)))))))))))))"

subsection \<open>5. Chat animation\<close>

record chat_state =
  messageCount :: nat
  hasTimeout :: bool
  trackingArray :: bool

record restart_check =
  beforeCount :: nat
  afterRestart :: nat
  messagesAfterRestart :: nat

record animation_probe =
  animation_newContext :: "unit awaited"
  animation_newPage :: "unit awaited"
  animation_goto :: "unit awaited"
  animation_wait :: "unit awaited"
  animation_chatState :: "chat_state awaited"
  animation_restartCheck :: "restart_check awaited"
  animation_close :: "unit awaited"

definition chat_outcomes :: "chat_state \<Rightarrow> reporter \<Rightarrow> reporter" where
  "chat_outcomes chatState r =
     (let r1 = (if messageCount chatState > 0
                then pass (''Chat animation running ('' @ show_nat (messageCount chatState)
                           @ '' messages visible)'') r
                else fail ''Chat animation not running'' None r);
          r2 = (if hasTimeout chatState then pass ''Chat cycle timeout is set'' r1
                else fail ''Chat cycle timeout missing'' None r1)
      in if trackingArray chatState then pass ''Animation timeout tracking array exists'' r2
         else fail ''Animation timeout tracking missing'' None r2)"

definition animation_check :: "animation_probe \<Rightarrow> qa_state \<Rightarrow> qa_result" where
  "animation_check p s =
     await (animation_newContext p) s (\<lambda>_.
     await (animation_newPage p) (context_opened s) (\<lambda>_.
     await (animation_goto p) (context_opened s) (\<lambda>_.
     await (animation_wait p) (context_opened s) (\<lambda>_.
     await (animation_chatState p) (context_opened s) (\<lambda>chatState.
     let s1 = report (chat_outcomes chatState) (context_opened s) in
     await (animation_restartCheck p) s1 (\<lambda>restartCheck.
     let s2 = report (if messagesAfterRestart restartCheck > 0
                      then pass ''Chat restarts cleanly with new messages''
                      else fail ''Chat restart produced no messages'' None) s1 in
     await (animation_close p) s2 (\<lambda>_.
     Completed (context_closed s2))))))))"

subsection \<open>6. Interactive elements\<close>

record interactive_probe =
  interactive_newContext :: "unit awaited"
  interactive_newPage :: "unit awaited"
  interactive_goto :: "unit awaited"
  interactive_faqWorks :: "bool awaited"
  interactive_tabsWork :: "bool awaited"
  interactive_formWorks :: "bool awaited"
  interactive_scrollWorks :: "bool awaited"
  interactive_close :: "unit awaited"

definition interactive_check :: "interactive_probe \<Rightarrow> qa_state \<Rightarrow> qa_result" where
  "interactive_check p s =
     await (interactive_newContext p) s (\<lambda>_.
     await (interactive_newPage p) (context_opened s) (\<lambda>_.
     await (interactive_goto p) (context_opened s) (\<lambda>_.
     await (interactive_faqWorks p) (context_opened s) (\<lambda>faqWorks.
     let s1 = report (if faqWorks then pass ''FAQ accordion opens on click''
                      else warn ''FAQ accordion may not be working (check manually)'' None)
                (context_opened s) in
     await (interactive_tabsWork p) s1 (\<lambda>tabsWork.
     let s2 = report (if tabsWork then pass ''Agent tabs are clickable''
                      else fail ''Agent tabs not working'' None) s1 in
     await (interactive_formWorks p) s2 (\<lambda>formWorks.
     let s3 = report (if formWorks then pass ''Hero form accepts input''
                      else fail ''Hero form input broken'' None) s2 in
     await (interactive_scrollWorks p) s3 (\<lambda>scrollWorks.
     let s4 = report (if scrollWorks then pass ''Navigation scrolls to sections''
                      else warn ''Smooth scroll may not be working (check manually)'' None) s3 in
     await (interactive_close p) s4 (\<lambda>_.
     Completed (context_closed s4)))))))))"

subsection \<open>7. Performance\<close>

text \<open>
  \<open>performance_goto\<close> resolves to \<open>loadTime\<close>, the difference of the two readings of
  \<open>Date.now()\<close> around the navigation.
\<close>

record performance_probe =
  performance_newContext :: "unit awaited"
  performance_newPage :: "unit awaited"
  performance_goto :: "int awaited"
  performance_resources :: "(nat \<times> int) awaited"
  performance_close :: "unit awaited"

definition load_time_outcome :: "int \<Rightarrow> reporter \<Rightarrow> reporter" where
  "load_time_outcome loadTime r =
     (if loadTime < 3000 then pass (''Page load: '' @ show_int loadTime @ ''ms'') r
      else if loadTime < 5000
      then warn (''Page load: '' @ show_int loadTime @ ''ms'') (Some ''Consider optimizing'') r
      else fail (''Page load: '' @ show_int loadTime @ ''ms'') (Some ''Too slow'') r)"

definition resources_outcome :: "nat \<times> int \<Rightarrow> reporter \<Rightarrow> reporter" where
  "resources_outcome resources r =
     (if snd resources < 5000
      then pass (''Total resources: '' @ show_nat (fst resources) @ '' files, ''
                 @ show_int (snd resources) @ ''KB'') r
      else warn (''Total resources: '' @ show_nat (fst resources) @ '' files, ''
                 @ show_int (snd resources) @ ''KB'') (Some ''Page is heavy'') r)"

definition performance_check :: "performance_probe \<Rightarrow> qa_state \<Rightarrow> qa_result" where
  "performance_check p s =
     await (performance_newContext p) s (\<lambda>_.
     await (performance_newPage p) (context_opened s) (\<lambda>_.
     await (performance_goto p) (context_opened s) (\<lambda>loadTime.
     let s1 = report (load_time_outcome loadTime) (context_opened s) in
     await (performance_resources p) s1 (\<lambda>resources.
     let s2 = report (resources_outcome resources) s1 in
     await (performance_close p) s2 (\<lambda>_.
     Completed (context_closed s2))))))"

subsection \<open>The whole run\<close>

record browser =
  launch :: "unit awaited"
  loads :: "page \<Rightarrow> load_probe"
  layouts :: "viewport \<Rightarrow> layout_probe"
  images :: images_probe
  language :: language_probe
  animation :: animation_probe
  interactive :: interactive_probe
  performance :: performance_probe
  browser_close :: "unit awaited"

definition heading :: "string \<Rightarrow> qa_state \<Rightarrow> qa_state" where
  "heading h s = report (log (Heading h)) s"

definition qa_start :: "string \<Rightarrow> qa_state" where
  "qa_start base_url = heading (''Browser QA - '' @ base_url) \<lparr>rep = initial, open_contexts = 0\<rparr>"

definition run :: "string \<Rightarrow> (lang_state \<Rightarrow> string) \<Rightarrow> browser \<Rightarrow> qa_result" where
  "run base_url stringify b =
     await (launch b) (qa_start base_url) (\<lambda>_.
     and_then (load_checks (loads b) PAGES (heading ''1. Page Load'' (qa_start base_url))) (\<lambda>s.
     and_then (layout_checks (layouts b) VIEWPORTS (heading ''2. Responsive Layout'' s)) (\<lambda>s.
     and_then (qa_images_check (images b) (heading ''3. Images'' s)) (\<lambda>s.
     and_then (language_check stringify (language b) (heading ''4. Language Switching'' s)) (\<lambda>s.
     and_then (animation_check (animation b) (heading ''5. Chat Animation'' s)) (\<lambda>s.
     and_then (interactive_check (interactive b) (heading ''6. Interactive Elements'' s)) (\<lambda>s.
     and_then (performance_check (performance b) (heading ''7. Performance'' s)) (\<lambda>s.
     await (browser_close b) s (\<lambda>_. Completed s)))))))))"

text \<open>
  \<open>run().catch(...)\<close>: a run that completes prints the summary and exits with its code;
  a rejected run prints the fatal error and exits with code 1.
\<close>

datatype qa_exit = Summarised finished | Fatal string qa_state

definition qa_main :: "string \<Rightarrow> (lang_state \<Rightarrow> string) \<Rightarrow> browser \<Rightarrow> qa_exit" where
  "qa_main base_url stringify b =
     (case run base_url stringify b of
        Completed s \<Rightarrow> Summarised (qa_summary (rep s))
      | Rejected e s \<Rightarrow> Fatal e s)"

fun qa_exit_code :: "qa_exit \<Rightarrow> nat" where
  "qa_exit_code (Summarised f) = exit_code f"
| "qa_exit_code (Fatal e s) = 1"

section \<open>Documents used as examples\<close>

text \<open>An element without descendants, given by its attributes and its text.\<close>

definition leaf :: "(string \<times> string) list \<Rightarrow> string \<Rightarrow> element" where
  "leaf as t = Element as t None (\<lambda>sel. [])"

definition page_with :: "string \<Rightarrow> element list \<Rightarrow> document" where
  "page_with sel els =
     \<lparr>html = [], select = (\<lambda>q. if q = sel then els else []), on_disk = (\<lambda>p. False)\<rparr>"

text \<open>A card with a title, a body and three tags, and no label.\<close>

definition card_without_label :: element where
  "card_without_label =
     Element [] [] None
       (\<lambda>sel. if sel = ''h4'' then [leaf [] ''Planner'']
              else if sel = ''p:not(.tracking-widest)'' then [leaf [] '' Plans the month. '']
              else if sel = ''.flex-wrap span'' then [leaf [] ''a'', leaf [] ''b'', leaf [] ''c'']
              else [])"

text \<open>An inline image: a \<open>data:\<close> source, lazy loading, no alt, no width, no height.\<close>

definition inline_img :: element where
  "inline_img = leaf [(''src'', ''data:image/gif;base64,R0lGODlhAQABAAAAACw=''), (''loading'', ''lazy'')] []"

text \<open>
  Three lazy images: a PNG with a width only and no alt, an SVG without dimensions and
  with an empty alt, a JPEG with an empty alt and both dimensions.
\<close>

definition three_images :: "element list" where
  "three_images =
     [leaf [(''src'', ''img/hero.png''), (''loading'', ''lazy''), (''width'', ''640'')] [],
      leaf [(''src'', ''img/logo.svg''), (''loading'', ''lazy''), (''alt'', [])] [],
      leaf [(''src'', ''img/team.jpg''), (''alt'', []), (''loading'', ''lazy''),
            (''width'', ''10''), (''height'', ''10'')] []]"

text \<open>
  A page that names \<open>img/bg.png\<close> four times (two images, two style rules) and
  \<open>img/ok.png\<close> once; only the latter is on disk.
\<close>

definition page_with_repeats :: document where
  \<open>page_with_repeats =
     \<lparr>html = ''<div style="background:url('img/bg.png')"></div><i style="background:url(img/bg.png)"></i>'',
      select = (\<lambda>q. if q = ''img[src]''
                      then [leaf [(''src'', ''img/bg.png'')] [], leaf [(''src'', ''img/bg.png'')] [],
                            leaf [(''src'', ''img/ok.png'')] []]
                      else []),
      on_disk = (\<lambda>p. p = ''img/ok.png'')\<rparr>\<close>

text \<open>A page that is an \<open>html\<close> element without attributes and nothing else.\<close>

definition bare_page :: document where
  "bare_page = page_with ''html'' [leaf [] []]"

text \<open>
  Two script texts. In the first the Portuguese array has four conversations and the
  English one has one. In the second the Portuguese array is declared with \<open>let\<close>, which
  the pattern of line 357 does not accept, and the English array has four conversations.
\<close>

definition four_conversations :: string where
  "four_conversations =
     ''  { messages: [1] },'' @ [CHR 0x0A] @ ''  {messages: [2] },'' @ [CHR 0x0A]
     @ ''  {  messages: [3] },'' @ [CHR 0x0A] @ ''  { messages: [4] }'' @ [CHR 0x0A]"

definition script_pt4_en1 :: string where
  "script_pt4_en1 =
     ''let currentLang = '' @ single_quoted ''pt'' @ '';'' @ [CHR 0x0A]
     @ ''var chatData = ['' @ [CHR 0x0A] @ four_conversations @ ''];'' @ [CHR 0x0A]
     @ ''const chatDataEN = [{ messages: [1] }];'' @ [CHR 0x0A]"

definition script_en4 :: string where
  "script_en4 =
     ''var currentLang = localStorage.getItem('' @ double_quoted ''zenLang'' @ '');'' @ [CHR 0x0A]
     @ ''let chatData = [];'' @ [CHR 0x0A]
     @ ''let chatDataEN = ['' @ [CHR 0x0A] @ four_conversations @ ''];'' @ [CHR 0x0A]"

text \<open>
  Four more script texts, each one line long: the variable declared with \<open>var\<close>; the
  variable declared with \<open>let\<close> and no blank around the equals sign; the declaration
  inside a line comment, where it initializes nothing; and a call of
  \<open>localStorage.getItem\<close> with a blank on each side of its argument.
\<close>

definition script_var_pt :: string where
  "script_var_pt = ''var currentLang = '' @ single_quoted ''pt'' @ '';''"

definition script_tight_pt :: string where
  "script_tight_pt = ''let currentLang='' @ single_quoted ''pt'' @ '';''"

definition script_comment_pt :: string where
  "script_comment_pt = ''// let currentLang = '' @ single_quoted ''pt''"

definition script_spaced_getItem :: string where
  "script_spaced_getItem = ''var l = localStorage.getItem( '' @ single_quoted ''zenLang'' @ '' );''"

text \<open>
  Two script texts that begin with the same line, a Portuguese array of one
  conversation whose closing \<open>];\<close> is followed by a line comment. In the first the
  English array has three conversations, in the second it has one.
\<close>

definition pt_line_with_comment :: string where
  "pt_line_with_comment = ''var chatData = [{ messages: 1 }]; // pt'' @ [CHR 0x0A]"

definition script_comment_en3 :: string where
  "script_comment_en3 = pt_line_with_comment
     @ ''const chatDataEN = [{ messages: 1 }, { messages: 2 }, { messages: 3 }];'' @ [CHR 0x0A]"

definition script_comment_en1 :: string where
  "script_comment_en1 = pt_line_with_comment @ ''const chatDataEN = [{ messages: 1 }];'' @ [CHR 0x0A]"

text \<open>
  Answers of a browser. With \<open>ok_load\<close> a page loads with status 200 and no script
  error; with \<open>refused_load\<close> its navigation rejects; with \<open>stuck_layout\<close> the
  navigation of a responsive-layout pass times out. The other probes answer what a
  healthy site answers.
\<close>

definition ok_load :: load_probe where
  "ok_load = \<lparr>load_newContext = Returns (), load_newPage = Returns (), load_goto = Returns (Some 200),
     load_pageerrors = [], load_close = Returns ()\<rparr>"

definition refused_load :: load_probe where
  "refused_load = ok_load\<lparr>load_goto := Throws ''net::ERR_CONNECTION_REFUSED''\<rparr>"

definition stuck_layout :: layout_probe where
  "stuck_layout = \<lparr>layout_newContext = Returns (), layout_newPage = Returns (),
     layout_goto = Throws ''Timeout 15000ms exceeded'', layout_overflow = Returns (390, 390),
     layout_navVisible = Returns True, layout_phoneCheck = Returns (PhoneFound ''block'' 280 560),
     layout_footerVisible = Returns True, layout_close = Returns ()\<rparr>"

definition ok_images :: images_probe where
  "ok_images = \<lparr>images_newContext = Returns (), images_newPage = Returns (), images_goto = Returns (),
     images_scroll = Returns (), images_wait = Returns (), images_broken = Returns [],
     images_close = Returns ()\<rparr>"

definition ok_language :: language_probe where
  "ok_language = \<lparr>language_newContext = Returns (), language_newPage = Returns (),
     language_goto = Returns (), language_default = Returns ''pt-BR'',
     language_switch_en = Returns (), language_wait_en = Returns (),
     language_enState = Returns \<lparr>ls_lang = ''en'', ls_title = ''Zen'', ls_h1 = Some ''Your financial life''\<rparr>,
     language_switch_pt = Returns (), language_wait_pt = Returns (),
     language_ptState = Returns \<lparr>ls_lang = ''pt-BR'', ls_title = ''Zen'', ls_h1 = Some ''Sua vida financeira''\<rparr>,
     language_stress = Returns [], language_close = Returns ()\<rparr>"

definition ok_animation :: animation_probe where
  "ok_animation = \<lparr>animation_newContext = Returns (), animation_newPage = Returns (),
     animation_goto = Returns (), animation_wait = Returns (),
     animation_chatState = Returns \<lparr>messageCount = 2, hasTimeout = True, trackingArray = True\<rparr>,
     animation_restartCheck = Returns \<lparr>beforeCount = 3, afterRestart = 1, messagesAfterRestart = 2\<rparr>,
     animation_close = Returns ()\<rparr>"

definition ok_interactive :: interactive_probe where
  "ok_interactive = \<lparr>interactive_newContext = Returns (), interactive_newPage = Returns (),
     interactive_goto = Returns (), interactive_faqWorks = Returns True,
     interactive_tabsWork = Returns True, interactive_formWorks = Returns True,
     interactive_scrollWorks = Returns True, interactive_close = Returns ()\<rparr>"

definition ok_performance :: performance_probe where
  "ok_performance = \<lparr>performance_newContext = Returns (), performance_newPage = Returns (),
     performance_goto = Returns 850, performance_resources = Returns (40, 1200),
     performance_close = Returns ()\<rparr>"

definition browser_with_stuck_layout :: browser where
  "browser_with_stuck_layout =
     \<lparr>launch = Returns (), loads = (\<lambda>pg. ok_load), layouts = (\<lambda>vp. stuck_layout),
      images = ok_images, language = ok_language, animation = ok_animation,
      interactive = ok_interactive, performance = ok_performance, browser_close = Returns ()\<rparr>"

text \<open>
  The state in which the first responsive-layout pass of \<open>browser_with_stuck_layout\<close>
  is left: three pages loaded, the heading of group 2 printed, one context open.
\<close>

definition stuck_state :: qa_state where
  "stuck_state =
     \<lparr>rep = \<lparr>passed = 6, failed = 0, warnings = 0,
              console =
                [Heading ''Browser QA - http://localhost:8765'',
                 Heading ''1. Page Load'',
                 Result Pass ''Home loads (HTTP 200)'',
                 Result Pass ''Home - no JS errors'',
                 Result Pass ''Privacy Policy loads (HTTP 200)'',
                 Result Pass ''Privacy Policy - no JS errors'',
                 Result Pass ''Privacy PDF loads (HTTP 200)'',
                 Result Pass ''Privacy PDF - no JS errors'',
                 Heading ''2. Responsive Layout'']\<rparr>,
      open_contexts = 1\<rparr>"

definition local_url :: string where
  "local_url = ''http://localhost:8765''"

definition stringify_lang :: "lang_state \<Rightarrow> string" where
  "stringify_lang st = ls_lang st"

section \<open>Properties of the reporter\<close>

lemma pass_counters [simp]:
  "passed (pass l r) = passed r + 1" "failed (pass l r) = failed r" "warnings (pass l r) = warnings r"
  by (simp_all add: pass_def)

lemma fail_counters [simp]:
  "passed (fail l d r) = passed r" "failed (fail l d r) = failed r + 1" "warnings (fail l d r) = warnings r"
  by (simp_all add: fail_def)

lemma warn_counters [simp]:
  "passed (warn l d r) = passed r" "failed (warn l d r) = failed r" "warnings (warn l d r) = warnings r + 1"
  by (simp_all add: warn_def)

lemma log_counters [simp]:
  "passed (log l r) = passed r" "failed (log l r) = failed r" "warnings (log l r) = warnings r"
  by (simp_all add: log_def)

lemma fail_each_counters [simp]:
  "passed (fail_each l d xs r) = passed r"
  "failed (fail_each l d xs r) = failed r + length xs"
  "warnings (fail_each l d xs r) = warnings r"
  by (induction xs arbitrary: r) simp_all

lemma record_result_counters [simp]:
  "passed (record_result c r) = passed r + (if kind c = Pass then 1 else 0)"
  "failed (record_result c r) = failed r + (if kind c = Fail then 1 else 0)"
  "warnings (record_result c r) = warnings r + (if kind c = Warn then 1 else 0)"
  by (cases "(c, r)" rule: record_result.cases; simp)+

lemma record_all_passed: "passed (record_all cs r) = passed r + count_list (map kind cs) Pass"
  by (induction cs arbitrary: r) simp_all

lemma record_all_failed: "failed (record_all cs r) = failed r + count_list (map kind cs) Fail"
  by (induction cs arbitrary: r) simp_all

lemma record_all_warnings: "warnings (record_all cs r) = warnings r + count_list (map kind cs) Warn"
  by (induction cs arbitrary: r) simp_all

text \<open>
  C4. Recording a Fail adds exactly 1 to the fail counter and leaves the pass and warn
  counters as they were; recording a Warn adds exactly 1 to the warn counter only;
  recording a Pass adds exactly 1 to the pass counter only; \<open>check\<close> is one of the
  first and the third; and over any sequence of recorded outcomes no counter ends below
  where it started. The three reporter functions have the same text in both scripts.
\<close>

theorem recording_changes_one_counter:
  "(failed (fail l d r) = failed r + 1 \<and> passed (fail l d r) = passed r
      \<and> warnings (fail l d r) = warnings r)
   \<and> (warnings (warn l d r) = warnings r + 1 \<and> passed (warn l d r) = passed r
      \<and> failed (warn l d r) = failed r)
   \<and> (passed (pass l r) = passed r + 1 \<and> failed (pass l r) = failed r
      \<and> warnings (pass l r) = warnings r)
   \<and> check l True d r = pass l r \<and> check l False d r = fail l d r
   \<and> (passed r \<le> passed (record_all cs r) \<and> failed r \<le> failed (record_all cs r)
      \<and> warnings r \<le> warnings (record_all cs r))"
proof -
  have "passed r \<le> passed (record_all cs r)"
    by (simp add: record_all_passed)
  moreover have "failed r \<le> failed (record_all cs r)"
    by (simp add: record_all_failed)
  moreover have "warnings r \<le> warnings (record_all cs r)"
    by (simp add: record_all_warnings)
  ultimately show ?thesis
    by (simp add: check_def)
qed

lemma count_list_kinds:
  assumes "mset (map kind cs) = mset (map kind cs')"
  shows "count_list (map kind cs) k = count_list (map kind cs') k"
proof -
  have "count (mset (map kind cs)) k = count (mset (map kind cs')) k"
    using assms by simp
  then show ?thesis
    by (simp only: count_mset)
qed

lemma validate_summary_counters:
  "verdict (validate_summary r) =
     (if 0 < failed r then Failure else if 0 < warnings r then SuccessWithWarnings else Success)"
  "exit_code (validate_summary r) = (if 0 < failed r then 1 else 0)"
  by (simp_all add: validate_summary_def)

lemma qa_summary_counters:
  "verdict (qa_summary r) =
     (if 0 < failed r then Failure else if 0 < warnings r then SuccessWithWarnings else Success)"
  "exit_code (qa_summary r) = (if 0 < failed r then 1 else 0)"
  by (simp_all add: qa_summary_def)

text \<open>
  C1. In both scripts the final classification and the exit code are determined by the
  counters alone: a positive fail counter gives Failure and exit code 1; a zero fail
  counter with a positive warn counter gives SuccessWithWarnings and exit code 0; both
  zero give Success and exit code 0. Hence two runs that record the same outcomes in a
  different order, from the same counters, end with the same classification and code.
\<close>

theorem summary_is_function_of_counters:
  "(0 < failed r \<longrightarrow>
      verdict (validate_summary r) = Failure \<and> exit_code (validate_summary r) = 1
      \<and> verdict (qa_summary r) = Failure \<and> exit_code (qa_summary r) = 1)
   \<and> (failed r = 0 \<and> 0 < warnings r \<longrightarrow>
      verdict (validate_summary r) = SuccessWithWarnings \<and> exit_code (validate_summary r) = 0
      \<and> verdict (qa_summary r) = SuccessWithWarnings \<and> exit_code (qa_summary r) = 0)
   \<and> (failed r = 0 \<and> warnings r = 0 \<longrightarrow>
      verdict (validate_summary r) = Success \<and> exit_code (validate_summary r) = 0
      \<and> verdict (qa_summary r) = Success \<and> exit_code (qa_summary r) = 0)
   \<and> (mset (map kind cs) = mset (map kind cs') \<longrightarrow>
      verdict (validate_summary (record_all cs r)) = verdict (validate_summary (record_all cs' r))
      \<and> exit_code (validate_summary (record_all cs r)) = exit_code (validate_summary (record_all cs' r))
      \<and> verdict (qa_summary (record_all cs r)) = verdict (qa_summary (record_all cs' r))
      \<and> exit_code (qa_summary (record_all cs r)) = exit_code (qa_summary (record_all cs' r)))"
proof -
  have order: "failed (record_all cs r) = failed (record_all cs' r)
      \<and> warnings (record_all cs r) = warnings (record_all cs' r)"
    if "mset (map kind cs) = mset (map kind cs')"
    using count_list_kinds [OF that] by (simp add: record_all_failed record_all_warnings)
  show ?thesis
    using order by (simp add: validate_summary_counters qa_summary_counters)
qed

theorem summary_is_function_of_counters_witness:
  "verdict (validate_summary (record_all [(Warn, ''w'', None), (Fail, ''f'', Some ''d''), (Pass, ''p'', None)] initial))
     = Failure
   \<and> exit_code (qa_summary (record_all [(Warn, ''w'', None), (Fail, ''f'', Some ''d''), (Pass, ''p'', None)] initial))
     = 1
   \<and> verdict (validate_summary (record_all [(Pass, ''p'', None), (Warn, ''w'', None)] initial))
     = SuccessWithWarnings
   \<and> exit_code (validate_summary (record_all [(Pass, ''p'', None), (Warn, ''w'', None)] initial)) = 0
   \<and> verdict (qa_summary (record_all [(Pass, ''p'', None)] initial)) = Success
   \<and> exit_code (qa_summary (record_all [(Pass, ''p'', None)] initial)) = 0
   \<and> verdict (validate_summary (record_all [(Fail, ''f'', Some ''d''), (Pass, ''p'', None), (Warn, ''w'', None)] initial))
     = verdict (validate_summary (record_all [(Warn, ''w'', None), (Fail, ''f'', Some ''d''), (Pass, ''p'', None)] initial))"
proof -
  let ?a = "[(Warn, ''w'', None), (Fail, ''f'', Some ''d''), (Pass, ''p'', None)]"
  let ?b = "[(Pass, ''p'', None), (Warn, ''w'', None)]"
  let ?c = "[(Pass, ''p'', None)]"
  let ?d = "[(Fail, ''f'', Some ''d''), (Pass, ''p'', None), (Warn, ''w'', None)]"
  have fa: "0 < failed (record_all ?a initial)"
    by (simp add: initial_def)
  have fb: "failed (record_all ?b initial) = 0 \<and> 0 < warnings (record_all ?b initial)"
    by (simp add: initial_def)
  have fc: "failed (record_all ?c initial) = 0 \<and> warnings (record_all ?c initial) = 0"
    by (simp add: initial_def)
  have perm: "mset (map kind ?d) = mset (map kind ?a)"
    by simp
  show ?thesis
    using summary_is_function_of_counters [of "record_all ?a initial" "[]" "[]"]
      summary_is_function_of_counters [of "record_all ?b initial" "[]" "[]"]
      summary_is_function_of_counters [of "record_all ?c initial" "[]" "[]"]
      summary_is_function_of_counters [of initial ?d ?a]
      fa fb fc perm
    by blast
qed

section \<open>Properties of validate.mjs\<close>

lemma console_fail_each:
  "console (fail_each l d xs r) =
     console r @ concat (map (\<lambda>x. Result Fail (l x) # detail_lines (d x)) xs)"
  by (induction xs arbitrary: r) (simp_all add: fail_def)

subsection \<open>Agent cards\<close>

lemma agent_cards_each_counters:
  "failed (agent_cards_each i cards r) = failed r + length (filter (\<lambda>c. \<not> card_complete c) cards)"
  "passed (agent_cards_each i cards r) = passed r"
  "warnings (agent_cards_each i cards r) = warnings r"
  by (induction cards arbitrary: i r) (auto simp: card_complete_def Let_def)

text \<open>
  The loop records one Fail for each incomplete card; the Pass of line 193 is recorded
  whatever the loop found.
\<close>

lemma agent_cards_check_counters:
  "passed (agent_cards_check doc r) = passed r + 1"
  "failed (agent_cards_check doc r) =
     failed r + length (filter (\<lambda>c. \<not> card_complete c) (select doc ''.sobre-card''))"
  by (simp_all add: agent_cards_check_def agent_cards_each_counters)

text \<open>
  C3. Each agent card is checked for a label, a title, a body and at least 3 tags, with
  one Fail for each incomplete card, and the aggregate Pass is to be recorded only if
  every card is complete. On a document whose only card has no label the script records
  the Fail for card 0 and then the aggregate Pass all the same.
\<close>

theorem agent_cards_pass_after_incomplete_card:
  "\<not> card_complete card_without_label
   \<and> console (agent_cards_check (page_with ''.sobre-card'' [card_without_label]) initial) =
       [Result Fail ''Agent card 0 incomplete'',
        Detail (''label='' @ double_quoted [] @ '' title='' @ double_quoted ''Planner'' @ '' tags=3''),
        Result Pass ''All agent cards have label, title, body, and tags'']
   \<and> failed (agent_cards_check (page_with ''.sobre-card'' [card_without_label]) initial) = 1
   \<and> passed (agent_cards_check (page_with ''.sobre-card'' [card_without_label]) initial) = 1"
  by (simp add: agent_cards_check_def page_with_def card_without_label_def leaf_def initial_def
      card_complete_def text_of_def trim_def is_space_def fail_def pass_def card_detail_def
      show_nat.simps digit_def double_quoted_def)

subsection \<open>Images\<close>

lemma img_each_lists:
  "missingAlt (img_each els i) = missingAlt i @ map img_name (filter img_missing_alt els)"
  "lazyWithoutDimensions (img_each els i) =
     lazyWithoutDimensions i @ map img_name (filter img_lazy_without_dimensions els)"
  by (induction els arbitrary: i)
     (auto simp: Let_def img_name_def img_missing_alt_def img_lazy_without_dimensions_def
        img_examined_def)

lemma images_check_console:
  "console (images_check doc r) =
     console r @ [Heading ''6. Images'']
     @ (if filter img_missing_alt (select doc ''img'') = []
        then [Result Pass ''All images have alt attributes'']
        else map (\<lambda>el. Result Fail (''Missing alt: '' @ img_name el))
               (filter img_missing_alt (select doc ''img'')))
     @ (if filter img_lazy_without_dimensions (select doc ''img'') = []
        then [Result Pass ''All lazy-loaded images have width/height'']
        else concat (map (\<lambda>el. [Result Fail (''Lazy image without dimensions: '' @ img_name el),
                                  Detail ''Browser may not load images in collapsed containers''])
               (filter img_lazy_without_dimensions (select doc ''img''))))"
  by (simp add: images_check_def Let_def img_each_lists console_fail_each pass_def log_def
      map_concat o_def concat_map_singleton)

lemma images_check_failed:
  "failed (images_check doc r) =
     failed r + length (filter img_missing_alt (select doc ''img''))
       + length (filter img_lazy_without_dimensions (select doc ''img''))"
  by (simp add: images_check_def Let_def img_each_lists)

lemma img_examined_iff:
  "img_examined el \<longleftrightarrow> (\<exists>src. attr el ''src'' = Some src \<and> src \<noteq> [] \<and> \<not> prefix ''data:'' src)"
  by (cases "attr el ''src''") (auto simp: img_examined_def starts_with_def)

text \<open>
  C5, as the script has it. The loop examines the images whose \<open>src\<close> is there, is not
  empty and does not start with \<open>data:\<close>. Every examined image without an alt attribute
  is reported as one failure, in document order, and one with an empty alt is not; every
  examined image with \<open>loading="lazy"\<close> whose width or height is missing or empty is
  reported as one failure unless its source ends in \<open>.svg\<close>, and then it is not. An
  aggregate Pass stands in for a list of failures that is empty.
\<close>

theorem images_reported_among_examined:
  "(img_examined el \<longleftrightarrow> (\<exists>src. attr el ''src'' = Some src \<and> src \<noteq> [] \<and> \<not> prefix ''data:'' src))
   \<and> (img_missing_alt el \<longleftrightarrow> img_examined el \<and> attr el ''alt'' = None)
   \<and> (img_lazy_without_dimensions el \<longleftrightarrow>
        img_examined el \<and> attr el ''loading'' = Some ''lazy''
        \<and> (attr el ''width'' \<in> {None, Some []} \<or> attr el ''height'' \<in> {None, Some []})
        \<and> \<not> suffix ''.svg'' (or_empty (attr el ''src'')))
   \<and> console (images_check doc r) =
       console r @ [Heading ''6. Images'']
       @ (if filter img_missing_alt (select doc ''img'') = []
          then [Result Pass ''All images have alt attributes'']
          else map (\<lambda>el. Result Fail (''Missing alt: '' @ img_name el))
                 (filter img_missing_alt (select doc ''img'')))
       @ (if filter img_lazy_without_dimensions (select doc ''img'') = []
          then [Result Pass ''All lazy-loaded images have width/height'']
          else concat (map (\<lambda>el. [Result Fail (''Lazy image without dimensions: '' @ img_name el),
                                    Detail ''Browser may not load images in collapsed containers''])
                 (filter img_lazy_without_dimensions (select doc ''img''))))
   \<and> failed (images_check doc r) =
       failed r + length (filter img_missing_alt (select doc ''img''))
         + length (filter img_lazy_without_dimensions (select doc ''img''))"
proof -
  have dims: "\<not> truthy v \<longleftrightarrow> v \<in> {None, Some []}" for v
    by (cases v) auto
  have "img_lazy_without_dimensions el \<longleftrightarrow>
        img_examined el \<and> attr el ''loading'' = Some ''lazy''
        \<and> (attr el ''width'' \<in> {None, Some []} \<or> attr el ''height'' \<in> {None, Some []})
        \<and> \<not> suffix ''.svg'' (or_empty (attr el ''src''))"
    unfolding img_lazy_without_dimensions_def ends_with_def dims ..
  then show ?thesis
    using img_examined_iff [of el] images_check_console [of doc r] images_check_failed [of doc r]
    by (simp only: img_missing_alt_def simp_thms)
qed

theorem images_reported_among_examined_witness:
  "console (images_check (page_with ''img'' three_images) initial) =
     [Heading ''6. Images'',
      Result Fail ''Missing alt: hero.png'',
      Result Fail ''Lazy image without dimensions: hero.png'',
      Detail ''Browser may not load images in collapsed containers'']
   \<and> failed (images_check (page_with ''img'' three_images) initial) = 2"
  using images_reported_among_examined [of "hd three_images" "page_with ''img'' three_images" initial]
  by (simp add: page_with_def three_images_def leaf_def initial_def img_missing_alt_def
      img_lazy_without_dimensions_def img_examined_def attr_def starts_with_def ends_with_def
      img_name_def file_name_def dirs_at_def is_line_terminator_def after_last_slash_def suffix_def)

text \<open>
  C5 as it is stated fails on an inline image: it has a source, no alt attribute, lazy
  loading, no dimensions, and its source does not end in \<open>.svg\<close>; the script skips it
  and records two passes.
\<close>

theorem inline_image_not_reported:
  "attr inline_img ''src'' = Some ''data:image/gif;base64,R0lGODlhAQABAAAAACw=''
   \<and> attr inline_img ''alt'' = None
   \<and> attr inline_img ''loading'' = Some ''lazy''
   \<and> attr inline_img ''width'' = None
   \<and> attr inline_img ''height'' = None
   \<and> ends_with ''data:image/gif;base64,R0lGODlhAQABAAAAACw='' ''.svg'' = False
   \<and> console (images_check (page_with ''img'' [inline_img]) initial) =
       [Heading ''6. Images'',
        Result Pass ''All images have alt attributes'',
        Result Pass ''All lazy-loaded images have width/height'']
   \<and> failed (images_check (page_with ''img'' [inline_img]) initial) = 0"
  by (simp add: images_check_def page_with_def inline_img_def leaf_def initial_def attr_def
      starts_with_def ends_with_def suffix_def pass_def log_def)

subsection \<open>Asset files\<close>

lemma set_add_props: "distinct xs \<Longrightarrow> distinct (set_add x xs)" "set (set_add x xs) = insert x (set xs)"
  by (auto simp: set_add_def)

lemma fold_set_add: "distinct acc \<Longrightarrow> distinct (fold set_add xs acc)" "set (fold set_add xs acc) = set xs \<union> set acc"
  by (induction xs arbitrary: acc) (simp_all add: set_add_props)

lemma add_img_assets_fold: "add_img_assets els acc = fold set_add (img_refs els) acc"
  by (induction els arbitrary: acc) (simp_all add: img_refs_def Let_def)

lemma add_link_assets_fold: "add_link_assets els acc = fold set_add (link_refs els) acc"
  by (induction els arbitrary: acc) (simp_all add: link_refs_def Let_def)

lemma add_url_assets_fold: "add_url_assets ms acc = fold set_add (url_refs ms) acc"
  by (induction ms arbitrary: acc) (simp_all add: url_refs_def Let_def)

lemma localAssets_fold: "localAssets doc = fold set_add (referenced doc) []"
  by (simp add: localAssets_def referenced_def add_img_assets_fold add_link_assets_fold add_url_assets_fold)

lemma localAssets_distinct: "distinct (localAssets doc)" "set (localAssets doc) = set (referenced doc)"
  by (simp_all add: localAssets_fold fold_set_add)

lemma missingAssets_distinct: "distinct (missingAssets doc)"
  "set (missingAssets doc) = {p \<in> set (referenced doc). \<not> on_disk doc p}"
  by (auto simp: missingAssets_def localAssets_distinct)

lemma count_list_distinct: "distinct xs \<Longrightarrow> count_list xs x = (if x \<in> set xs then 1 else 0)"
  by (induction xs) auto

lemma count_fail_lines:
  "count_list (concat (map (\<lambda>x. Result Fail (l x) # detail_lines (d x)) xs)) (Result Fail t)
     = count_list (map l xs) t"
proof (induction xs)
  case Nil
  then show ?case by simp
next
  case (Cons x xs)
  have "count_list (detail_lines (d x)) (Result Fail t) = 0"
    by (cases "d x") auto
  with Cons show ?case by (simp add: count_list_append)
qed

lemma count_list_map_inj: "inj f \<Longrightarrow> count_list (map f xs) (f x) = count_list xs x"
  by (induction xs) (auto dest: injD)

lemma count_fail_each:
  "count_list (console (fail_each l d xs r)) (Result Fail t) =
     count_list (console r) (Result Fail t) + count_list (map l xs) t"
  by (simp add: console_fail_each count_fail_lines)

lemma assets_fail_count:
  "count_list (console (assets_check doc r)) (Result Fail (''Missing asset: '' @ p)) =
     count_list (console r) (Result Fail (''Missing asset: '' @ p))
       + (if p \<in> set (referenced doc) \<and> \<not> on_disk doc p then 1 else 0)"
proof -
  define f where "f = (\<lambda>a. ''Missing asset: '' @ a)"
  define r1 where "r1 = log (Heading ''4. Asset Files'') r"
  have inj: "inj f"
    unfolding f_def by (rule injI) simp
  have missing: "count_list (map f (missingAssets doc)) (f p)
        = (if p \<in> set (referenced doc) \<and> \<not> on_disk doc p then 1 else 0)"
    using count_list_map_inj [OF inj, of "missingAssets doc" p]
    by (simp add: count_list_distinct missingAssets_distinct)
  have r1: "count_list (console r1) (Result Fail (f p)) = count_list (console r) (Result Fail (f p))"
    by (simp add: r1_def log_def)
  show ?thesis
  proof (cases "missingAssets doc = []")
    case True
    then have "assets_check doc r = pass (''All '' @ show_nat (length (localAssets doc)) @ '' local assets exist on disk'') r1"
      by (simp add: assets_check_def r1_def)
    then have "count_list (console (assets_check doc r)) (Result Fail (f p)) = count_list (console r1) (Result Fail (f p))"
      by (simp add: pass_def)
    moreover have "count_list (map f (missingAssets doc)) (f p) = 0"
      using True by simp
    ultimately show ?thesis
      using missing r1 by (simp add: f_def)
  next
    case False
    then have "assets_check doc r = fail_each f (\<lambda>a. None) (missingAssets doc) r1"
      unfolding assets_check_def r1_def f_def Let_def by (simp only: if_False)
    then show ?thesis
      using missing r1 by (simp add: count_fail_each f_def)
  qed
qed

lemma assets_failed:
  "failed (assets_check doc r) = failed r + card {p \<in> set (referenced doc). \<not> on_disk doc p}"
  using distinct_card [OF missingAssets_distinct(1), of doc]
  by (simp add: assets_check_def Let_def missingAssets_distinct(2))

text \<open>
  C9. The local references taken from image sources, link hrefs and \<open>url(...)\<close>
  occurrences go through a set before the existence check: the set holds each referenced
  path once, so a path that is missing on disk gives exactly one missing-asset failure
  and any other path gives none, however often the document refers to it.
\<close>

theorem missing_asset_reported_once:
  "distinct (localAssets doc) \<and> set (localAssets doc) = set (referenced doc)
   \<and> distinct (missingAssets doc)
   \<and> count_list (console (assets_check doc r)) (Result Fail (''Missing asset: '' @ p)) =
       count_list (console r) (Result Fail (''Missing asset: '' @ p))
         + (if p \<in> set (referenced doc) \<and> \<not> on_disk doc p then 1 else 0)
   \<and> count_list (console (assets_check doc r)) (Result Fail (''Missing asset: '' @ p))
       \<le> count_list (console r) (Result Fail (''Missing asset: '' @ p)) + 1
   \<and> failed (assets_check doc r) = failed r + card {p \<in> set (referenced doc). \<not> on_disk doc p}"
proof -
  have "count_list (console (assets_check doc r)) (Result Fail (''Missing asset: '' @ p))
       \<le> count_list (console r) (Result Fail (''Missing asset: '' @ p)) + 1"
    by (simp only: assets_fail_count split: if_split) simp
  then show ?thesis
    using localAssets_distinct [of doc] missingAssets_distinct(1) [of doc]
      assets_fail_count [of doc r p] assets_failed [of doc r]
    by (simp only: simp_thms)
qed

lemma page_with_repeats_referenced:
  "referenced page_with_repeats =
     [''img/bg.png'', ''img/bg.png'', ''img/ok.png'', ''img/bg.png'', ''img/bg.png'']"
  unfolding page_with_repeats_def by code_simp

theorem missing_asset_reported_once_witness:
  "count_list (referenced page_with_repeats) ''img/bg.png'' = 4
   \<and> count_list (console (assets_check page_with_repeats initial))
        (Result Fail ''Missing asset: img/bg.png'') = 1
   \<and> count_list (console (assets_check page_with_repeats initial))
        (Result Fail ''Missing asset: img/ok.png'') = 0"
proof -
  have disk: "on_disk page_with_repeats = (\<lambda>p. p = ''img/ok.png'')"
    by (simp add: page_with_repeats_def)
  show ?thesis
    using missing_asset_reported_once [of page_with_repeats initial "''img/bg.png''"]
      missing_asset_reported_once [of page_with_repeats initial "''img/ok.png''"]
    by (simp add: page_with_repeats_referenced disk initial_def)
qed

subsection \<open>Meta tags\<close>

lemma safeParse_keys_subset: "set (map fst (safeParse m schema data)) \<subseteq> set (map fst schema)"
  by (induction schema) (force split: option.splits if_splits)+

lemma attribute_field_in_schema:
  "(key, sel, a) \<in> set meta_attribute_fields \<Longrightarrow> key \<in> set (map fst MetaSchema)"
  unfolding meta_attribute_fields_def MetaSchema_def by (simp, elim disjE; simp)

lemma meta_absent_key:
  assumes "meta_absent doc key"
  shows "\<exists>rl. (key, rl) \<in> set MetaSchema"
proof -
  from assms consider (attribute) sel a where "(key, sel, a) \<in> set meta_attribute_fields"
    | (title) "key = ''title''"
    unfolding meta_absent_def by blast
  then have "key \<in> set (map fst MetaSchema)"
  proof cases
    case attribute
    then show ?thesis by (rule attribute_field_in_schema)
  next
    case title
    then show ?thesis by (simp add: MetaSchema_def)
  qed
  then have "key \<in> fst ` set MetaSchema"
    by (simp only: set_map)
  then show ?thesis
    by (metis imageE prod.collapse)
qed

lemma attribute_field_value:
  "(key, sel, a) \<in> set meta_attribute_fields \<Longrightarrow> attr_of (select doc sel) a = None
     \<Longrightarrow> map_of (metaData doc) key = Some []"
  unfolding meta_attribute_fields_def metaData_def by (simp, elim disjE; simp)

lemma meta_absent_value: "meta_absent doc key \<Longrightarrow> map_of (metaData doc) key = Some []"
  unfolding meta_absent_def
proof (elim disjE exE conjE)
  fix sel a
  assume "(key, sel, a) \<in> set meta_attribute_fields" "attr_of (select doc sel) a = None"
  then show ?thesis by (rule attribute_field_value)
next
  assume "key = ''title''" "select doc ''title'' = []"
  then show ?thesis by (simp add: metaData_def text_of_def)
qed

lemma MetaSchema_rejects_empty: "(key, rl) \<in> set MetaSchema \<Longrightarrow> \<not> satisfies rl []"
  unfolding MetaSchema_def by (simp, elim disjE; simp add: js_includes_def)

lemma safeParse_count:
  assumes "distinct (map fst schema)" "(key, rl) \<in> set schema"
  shows "count_list (map fst (safeParse m schema data)) key =
           (if (case data key of Some v \<Rightarrow> satisfies rl v | None \<Rightarrow> False) then 0 else 1)"
  using assms
proof (induction schema)
  case Nil
  then show ?case by simp
next
  case (Cons a schema)
  obtain k r where a: "a = (k, r)" by (cases a)
  show ?case
  proof (cases "k = key")
    case True
    with Cons.prems a have r: "r = rl" and notin: "key \<notin> set (map fst schema)"
      by (auto simp: rev_image_eqI)
    from notin have "key \<notin> set (map fst (safeParse m schema data))"
      using safeParse_keys_subset [of m schema data] by blast
    then have "count_list (map fst (safeParse m schema data)) key = 0"
      by (simp add: count_list_0_iff)
    with True a r show ?thesis
      by (simp add: count_list_append split: option.splits)
  next
    case False
    with Cons a have "count_list (map fst (safeParse m schema data)) key =
           (if (case data key of Some v \<Rightarrow> satisfies rl v | None \<Rightarrow> False) then 0 else 1)"
      by auto
    with False a show ?thesis
      by (simp add: count_list_append split: option.splits)
  qed
qed

lemma MetaSchema_keys: "distinct (map fst MetaSchema)"
  by (simp add: MetaSchema_def)

lemma meta_check_fail_count:
  "count_list (console (meta_check message doc r)) (Result Fail (''Meta: '' @ key)) =
     count_list (console r) (Result Fail (''Meta: '' @ key))
       + count_list (map fst (safeParse message MetaSchema (map_of (metaData doc)))) key"
proof -
  define f where "f = (\<lambda>i::issue. ''Meta: '' @ fst i)"
  define g where "g = (\<lambda>k::string. ''Meta: '' @ k)"
  define issues where "issues = safeParse message MetaSchema (map_of (metaData doc))"
  define r1 where "r1 = log (Heading ''1. Meta Tags'') r"
  have inj: "inj g"
    unfolding g_def by (rule injI) simp
  have fg: "map f issues = map g (map fst issues)"
    by (simp add: f_def g_def)
  have r1: "count_list (console r1) (Result Fail (g key)) = count_list (console r) (Result Fail (g key))"
    by (simp add: r1_def log_def)
  have labels: "count_list (map f issues) (g key) = count_list (map fst issues) key"
    unfolding fg using inj
    by (induction issues) (auto dest: injD)
  show ?thesis
  proof (cases "issues = []")
    case True
    then have "meta_check message doc r = pass ''All meta tags valid'' r1"
      by (simp add: meta_check_def r1_def issues_def)
    then have "count_list (console (meta_check message doc r)) (Result Fail (g key))
                 = count_list (console r1) (Result Fail (g key))"
      by (simp add: pass_def)
    with True r1 show ?thesis
      by (simp add: g_def issues_def)
  next
    case False
    then have "meta_check message doc r = fail_each f (\<lambda>i. Some (snd i)) issues r1"
      unfolding meta_check_def r1_def f_def issues_def Let_def by (simp only: if_False)
    then show ?thesis
      using labels r1 by (simp add: count_fail_each g_def issues_def)
  qed
qed

lemma meta_check_failed:
  "failed (meta_check message doc r) =
     failed r + length (safeParse message MetaSchema (map_of (metaData doc)))"
  by (simp add: meta_check_def Let_def)

text \<open>
  C10. The extraction of the meta facts cannot fail: when the element or the attribute
  behind a field (charset, viewport, title, description, the \<open>og:\<close> properties, the
  \<open>lang\<close> of \<open>html\<close>) is not in the document, \<open>.attr\<close> gives \<open>undefined\<close> and \<open>.text\<close>
  the empty string, \<open>|| ''\<close> makes the value the empty string, and the empty string
  breaks the rule of every field. So the group records exactly one Fail that names the
  field. \<open>meta_check\<close> has no error result because no call in lines 106 to 126 throws.
\<close>

theorem absent_meta_field_fails_once:
  assumes "meta_absent doc key"
  shows "map_of (metaData doc) key = Some []
    \<and> count_list (console (meta_check message doc r)) (Result Fail (''Meta: '' @ key)) =
        count_list (console r) (Result Fail (''Meta: '' @ key)) + 1
    \<and> failed r < failed (meta_check message doc r)
    \<and> warnings (meta_check message doc r) = warnings r"
proof -
  obtain rl where rl: "(key, rl) \<in> set MetaSchema"
    using meta_absent_key [OF assms] ..
  have v: "map_of (metaData doc) key = Some []"
    by (rule meta_absent_value [OF assms])
  have cnt: "count_list (map fst (safeParse message MetaSchema (map_of (metaData doc)))) key = 1"
    using safeParse_count [OF MetaSchema_keys rl, of message "map_of (metaData doc)"]
      MetaSchema_rejects_empty [OF rl] v by simp
  have lines: "count_list (console (meta_check message doc r)) (Result Fail (''Meta: '' @ key)) =
        count_list (console r) (Result Fail (''Meta: '' @ key)) + 1"
    using meta_check_fail_count [of message doc r key] cnt by simp
  have "safeParse message MetaSchema (map_of (metaData doc)) \<noteq> []"
    using cnt by auto
  then have more: "failed r < failed (meta_check message doc r)"
    by (simp add: meta_check_failed)
  have "warnings (meta_check message doc r) = warnings r"
    by (simp add: meta_check_def Let_def)
  with v lines more show ?thesis
    by (simp only: simp_thms)
qed

theorem absent_meta_field_fails_once_witness:
  "map_of (metaData bare_page) ''lang'' = Some []
   \<and> count_list (console (meta_check (\<lambda>rl. ''invalid'') bare_page initial))
        (Result Fail ''Meta: lang'') = 1
   \<and> map_of (metaData bare_page) ''title'' = Some []
   \<and> count_list (console (meta_check (\<lambda>rl. ''invalid'') bare_page initial))
        (Result Fail ''Meta: title'') = 1"
proof -
  have lang: "meta_absent bare_page ''lang''"
    by (simp add: meta_absent_def meta_attribute_fields_def bare_page_def page_with_def leaf_def
        attr_def)
  have title: "meta_absent bare_page ''title''"
    by (simp add: meta_absent_def bare_page_def page_with_def)
  show ?thesis
    using absent_meta_field_fails_once [OF lang, of "\<lambda>rl. ''invalid''" initial]
      absent_meta_field_fails_once [OF title, of "\<lambda>rl. ''invalid''" initial]
    by (simp add: initial_def)
qed

subsection \<open>The inline scripts\<close>

text \<open>
  C6, as the script has it. Both checks search the concatenated text of the inline
  scripts for exact texts, wherever they stand, also inside a comment or a string
  literal. The default-language check passes exactly when the text holds
  \<open>let currentLang = 'pt'\<close>, written with \<open>let\<close>, one blank on each side of the equals
  sign, and single or double quotes around \<open>pt\<close>. The persistence check passes exactly
  when the text holds neither \<open>localStorage.getItem('zenLang')\<close> nor the same with
  double quotes, with nothing between the parentheses and the quotes: these two texts
  have to be absent.
\<close>

theorem script_text_checks:
  "default_lang_check js r =
     (if (\<exists>u v. js = u @ ''let currentLang = '' @ single_quoted ''pt'' @ v)
         \<or> (\<exists>u v. js = u @ ''let currentLang = '' @ double_quoted ''pt'' @ v)
      then pass (''Default currentLang is '' @ double_quoted ''pt'') r
      else fail (''Default currentLang is '' @ double_quoted ''pt'') None r)
   \<and> local_storage_check js r =
     (if (\<exists>u v. js = u @ ''localStorage.getItem('' @ single_quoted ''zenLang'' @ '')'' @ v)
         \<or> (\<exists>u v. js = u @ ''localStorage.getItem('' @ double_quoted ''zenLang'' @ '')'' @ v)
      then fail ''No localStorage language auto-restore on load''
             (Some ''Page must always open in Portuguese'') r
      else pass ''No localStorage language auto-restore on load'' r)"
  unfolding default_lang_check_def local_storage_check_def hasLocalStorageLang_def check_def
    js_includes_def sublist_def
  by (simp only: append_assoc if_not_P if_P split: if_split) auto

text \<open>
  C6 as it is stated, for every initialization of \<open>currentLang\<close> to \<open>pt\<close> and every call
  of \<open>localStorage.getItem\<close> keyed by \<open>zenLang\<close>, fails. A script that initializes the
  variable with \<open>var\<close>, or with \<open>let\<close> and no blanks around the equals sign, fails the
  default-language check; a script whose only mention of the declaration is in a comment
  passes it; and a script that calls \<open>localStorage.getItem( 'zenLang' )\<close>, with blanks
  inside the parentheses, passes the persistence check.
\<close>

theorem other_spellings_escape_script_checks:
  "default_lang_check script_var_pt initial =
     fail (''Default currentLang is '' @ double_quoted ''pt'') None initial
   \<and> default_lang_check script_tight_pt initial =
     fail (''Default currentLang is '' @ double_quoted ''pt'') None initial
   \<and> default_lang_check script_comment_pt initial =
     pass (''Default currentLang is '' @ double_quoted ''pt'') initial
   \<and> local_storage_check script_spaced_getItem initial =
     pass ''No localStorage language auto-restore on load'' initial"
  unfolding script_var_pt_def script_tight_pt_def script_comment_pt_def script_spaced_getItem_def
  by code_simp

lemma script_pt4_en1_checks:
  "default_lang_check script_pt4_en1 initial = pass (''Default currentLang is '' @ double_quoted ''pt'') initial"
  "local_storage_check script_pt4_en1 initial = pass ''No localStorage language auto-restore on load'' initial"
  unfolding script_pt4_en1_def four_conversations_def by code_simp+

lemma script_en4_checks:
  "default_lang_check script_en4 initial = fail (''Default currentLang is '' @ double_quoted ''pt'') None initial"
  "local_storage_check script_en4 initial =
     fail ''No localStorage language auto-restore on load'' (Some ''Page must always open in Portuguese'') initial"
  unfolding script_en4_def four_conversations_def by code_simp+

lemma first_match_Some_iff:
  "first_match m s \<noteq> None \<longleftrightarrow> (\<exists>pre rest. s = pre @ rest \<and> m rest \<noteq> None)"
proof
  show "first_match m s \<noteq> None \<Longrightarrow> \<exists>pre rest. s = pre @ rest \<and> m rest \<noteq> None"
  proof (induction s)
    case Nil
    then show ?case by simp
  next
    case (Cons c cs)
    show ?case
    proof (cases "m (c # cs)")
      case None
      with Cons obtain pre rest where "cs = pre @ rest" "m rest \<noteq> None"
        by auto
      then have "c # cs = (c # pre) @ rest \<and> m rest \<noteq> None"
        by simp
      then show ?thesis by blast
    next
      case (Some a)
      then have "c # cs = [] @ (c # cs) \<and> m (c # cs) \<noteq> None"
        by simp
      then show ?thesis by blast
    qed
  qed
next
  assume "\<exists>pre rest. s = pre @ rest \<and> m rest \<noteq> None"
  then obtain pre rest where s: "s = pre @ rest" and m: "m rest \<noteq> None"
    by blast
  show "first_match m s \<noteq> None"
    unfolding s using m
  proof (induction pre)
    case Nil
    then show ?case by (cases rest) (auto split: option.splits)
  next
    case (Cons p ps)
    then show ?case by (auto split: option.splits)
  qed
qed

lemma first_match_Some_at:
  "first_match m s = Some x \<Longrightarrow> \<exists>pre rest. s = pre @ rest \<and> m rest = Some x"
proof (induction s)
  case Nil
  then show ?case by simp
next
  case (Cons c cs)
  show ?case
  proof (cases "m (c # cs)")
    case None
    with Cons obtain pre rest where "cs = pre @ rest" "m rest = Some x"
      by auto
    then have "c # cs = (c # pre) @ rest \<and> m rest = Some x"
      by simp
    then show ?thesis by blast
  next
    case (Some a)
    with Cons.prems have "c # cs = [] @ (c # cs) \<and> m (c # cs) = Some x"
      by simp
    then show ?thesis by blast
  qed
qed

lemma is_space_simps [simp]:
  "is_space (CHR 0x0A)" "\<not> is_space (CHR ''='')" "\<not> is_space (CHR ''['')" "\<not> is_space (CHR ''{'')"
  "\<not> is_space (CHR ''c'')" "\<not> is_space (CHR ''m'')"
  by (simp_all add: is_space_def)

lemma closes_at_iff:
  "closes_at r \<longleftrightarrow> (\<exists>ws post. r = ''];'' @ ws @ CHR 0x0A # post \<and> list_all is_space ws)"
proof
  assume c: "closes_at r"
  then have r: "r = ''];'' @ drop 2 r"
    by (auto simp: closes_at_def prefix_def)
  from c have "CHR 0x0A \<in> set (takeWhile is_space (drop 2 r))"
    by (simp add: closes_at_def)
  then obtain a b where ab: "takeWhile is_space (drop 2 r) = a @ CHR 0x0A # b"
    by (auto dest: split_list)
  have "list_all is_space (takeWhile is_space (drop 2 r))"
    by (auto simp: list_all_iff dest: set_takeWhileD)
  then have a: "list_all is_space a"
    by (simp add: ab)
  have "drop 2 r = takeWhile is_space (drop 2 r) @ dropWhile is_space (drop 2 r)"
    by simp
  then have "drop 2 r = a @ CHR 0x0A # (b @ dropWhile is_space (drop 2 r))"
    by (simp add: ab)
  with r have "r = ''];'' @ a @ CHR 0x0A # (b @ dropWhile is_space (drop 2 r))"
    by metis
  with a show "\<exists>ws post. r = ''];'' @ ws @ CHR 0x0A # post \<and> list_all is_space ws"
    by blast
next
  assume "\<exists>ws post. r = ''];'' @ ws @ CHR 0x0A # post \<and> list_all is_space ws"
  then obtain ws post where r: "r = ''];'' @ ws @ CHR 0x0A # post" and ws: "list_all is_space ws"
    by blast
  have "takeWhile is_space (ws @ CHR 0x0A # post) = ws @ CHR 0x0A # takeWhile is_space post"
    using ws by (simp add: takeWhile_append2 list_all_iff)
  then show "closes_at r"
    by (simp add: r closes_at_def)
qed

lemma lazy_capture_Some:
  "lazy_capture t = Some body \<Longrightarrow> \<exists>rest. t = body @ rest \<and> closes_at rest"
proof (induction t arbitrary: body)
  case Nil
  then show ?case by simp
next
  case (Cons c cs)
  show ?case
  proof (cases "closes_at (c # cs)")
    case True
    with Cons.prems have "body = []" by simp
    with True show ?thesis by simp
  next
    case False
    with Cons.prems obtain b where b: "lazy_capture cs = Some b" "body = c # b"
      by auto
    from Cons.IH [OF b(1)] obtain rest where "cs = b @ rest" "closes_at rest"
      by blast
    with b(2) show ?thesis by simp
  qed
qed

lemma lazy_capture_found:
  "closes_at rest \<Longrightarrow> lazy_capture (body @ rest) \<noteq> None"
proof (induction body)
  case Nil
  then show ?case by (cases rest) (simp_all add: closes_at_def)
next
  case (Cons c cs)
  then show ?case by simp
qed

lemma dropWhile_spaces:
  "list_all is_space ws \<Longrightarrow> \<not> is_space c \<Longrightarrow> dropWhile is_space (ws @ c # rest) = c # rest"
  by (simp add: dropWhile_append2 list_all_iff)

lemma spaces_then:
  "dropWhile is_space s = c # rest \<Longrightarrow> \<exists>ws. s = ws @ c # rest \<and> list_all is_space ws"
proof -
  assume d: "dropWhile is_space s = c # rest"
  have "s = takeWhile is_space s @ dropWhile is_space s" by simp
  then have "s = takeWhile is_space s @ c # rest" using d by simp
  moreover have "list_all is_space (takeWhile is_space s)"
    by (auto simp: list_all_iff dest: set_takeWhileD)
  ultimately show ?thesis by blast
qed

lemma assigned_array_Some:
  assumes "assigned_array s = Some body"
  shows "array_assigned s body"
proof -
  from assms obtain s1 where s1: "dropWhile is_space s = CHR ''='' # s1"
    by (auto simp: assigned_array_def split: list.splits if_splits)
  with assms obtain s2 where s2: "dropWhile is_space s1 = CHR ''['' # s2" and cap: "lazy_capture s2 = Some body"
    by (auto simp: assigned_array_def split: list.splits if_splits)
  from spaces_then [OF s1] obtain ws1 where a: "s = ws1 @ CHR ''='' # s1" "list_all is_space ws1" by blast
  from spaces_then [OF s2] obtain ws2 where b: "s1 = ws2 @ CHR ''['' # s2" "list_all is_space ws2" by blast
  from lazy_capture_Some [OF cap] obtain rest where c: "s2 = body @ rest" "closes_at rest" by blast
  from c(2) obtain ws3 post where d: "rest = ''];'' @ ws3 @ CHR 0x0A # post" "list_all is_space ws3"
    unfolding closes_at_iff by blast
  have "s = ws1 @ ''='' @ ws2 @ ''['' @ body @ ''];'' @ ws3 @ CHR 0x0A # post"
    by (simp add: a(1) b(1) c(1) d(1))
  with a(2) b(2) d(2) show ?thesis
    unfolding array_assigned_def by blast
qed

lemma assigned_array_found:
  assumes "array_assigned s body"
  shows "assigned_array s \<noteq> None"
proof -
  from assms obtain ws1 ws2 ws3 post where
    s: "s = ws1 @ ''='' @ ws2 @ ''['' @ body @ ''];'' @ ws3 @ CHR 0x0A # post"
    and ws: "list_all is_space ws1" "list_all is_space ws2" "list_all is_space ws3"
    unfolding array_assigned_def by blast
  define t2 where "t2 = body @ ''];'' @ ws3 @ CHR 0x0A # post"
  define t1 where "t1 = ws2 @ CHR ''['' # t2"
  have s': "s = ws1 @ CHR ''='' # t1"
    by (simp add: s t1_def t2_def)
  have c: "closes_at (''];'' @ ws3 @ CHR 0x0A # post)"
    unfolding closes_at_iff using ws(3) by blast
  have 1: "dropWhile is_space s = CHR ''='' # t1"
    unfolding s' using ws(1) by (simp add: dropWhile_spaces)
  have 2: "dropWhile is_space t1 = CHR ''['' # t2"
    unfolding t1_def using ws(2) by (simp add: dropWhile_spaces)
  have 3: "lazy_capture t2 \<noteq> None"
    unfolding t2_def by (rule lazy_capture_found [OF c])
  show ?thesis
    using 3 by (simp add: assigned_array_def 1 2)
qed

lemma pt_chat_at_Some:
  "pt_chat_at s = Some body \<Longrightarrow> \<exists>tail. s = ''var chatData'' @ tail \<and> array_assigned tail body"
proof -
  assume a: "pt_chat_at s = Some body"
  then have p: "prefix ''var chatData'' s" and b: "assigned_array (drop 12 s) = Some body"
    by (auto simp: pt_chat_at_def split: if_splits)
  from p have "s = ''var chatData'' @ drop 12 s"
    by (auto simp: prefix_def)
  with assigned_array_Some [OF b] show ?thesis by blast
qed

lemma pt_chat_at_found:
  "array_assigned tail body \<Longrightarrow> pt_chat_at (''var chatData'' @ tail) \<noteq> None"
  using assigned_array_found [of tail body] by (simp add: pt_chat_at_def)

lemma pt_chat_found_iff:
  "first_match pt_chat_at js \<noteq> None \<longleftrightarrow>
     (\<exists>pre tail body. js = pre @ ''var chatData'' @ tail \<and> array_assigned tail body)"
proof
  assume "first_match pt_chat_at js \<noteq> None"
  then obtain body where "first_match pt_chat_at js = Some body" by auto
  from first_match_Some_at [OF this] obtain pre rest where "js = pre @ rest" "pt_chat_at rest = Some body"
    by blast
  with pt_chat_at_Some [of rest body]
  show "\<exists>pre tail body. js = pre @ ''var chatData'' @ tail \<and> array_assigned tail body"
    by blast
next
  assume "\<exists>pre tail body. js = pre @ ''var chatData'' @ tail \<and> array_assigned tail body"
  then obtain pre tail body where js: "js = pre @ ''var chatData'' @ tail" and a: "array_assigned tail body"
    by blast
  from pt_chat_at_found [OF a] show "first_match pt_chat_at js \<noteq> None"
    unfolding first_match_Some_iff js by blast
qed

lemma pt_chat_capture:
  assumes "first_match pt_chat_at js = Some body"
  shows "\<exists>pre tail. js = pre @ ''var chatData'' @ tail \<and> array_assigned tail body"
proof -
  from first_match_Some_at [OF assms] obtain pre rest where "js = pre @ rest" "pt_chat_at rest = Some body"
    by blast
  with pt_chat_at_Some [of rest body] show ?thesis by blast
qed

lemma after_keyword_Some:
  "after_keyword s = Some s1 \<Longrightarrow> \<exists>kw. s = kw @ s1 \<and> kw \<in> set [''const'', ''var'', ''let'']"
  by (auto simp: after_keyword_def prefix_def split: if_splits)

lemma after_keyword_found:
  "kw \<in> set [''const'', ''var'', ''let''] \<Longrightarrow> after_keyword (kw @ s1) = Some s1"
  by (auto simp: after_keyword_def)

lemma en_chat_at_Some:
  assumes "en_chat_at s = Some body"
  shows "en_declared s body"
proof -
  from assms obtain s1 where k: "after_keyword s = Some s1"
    by (auto simp: en_chat_at_def split: option.splits)
  with assms have sp: "takeWhile is_space s1 \<noteq> []"
    and p: "prefix ''chatDataEN'' (dropWhile is_space s1)"
    and a: "assigned_array (drop 10 (dropWhile is_space s1)) = Some body"
    by (auto simp: en_chat_at_def split: if_splits)
  from after_keyword_Some [OF k] obtain kw where kw: "s = kw @ s1" "kw \<in> set [''const'', ''var'', ''let'']"
    by blast
  from p have d: "dropWhile is_space s1 = ''chatDataEN'' @ drop 10 (dropWhile is_space s1)"
    by (auto simp: prefix_def)
  have "s1 = takeWhile is_space s1 @ dropWhile is_space s1"
    by simp
  with d have s1: "s1 = takeWhile is_space s1 @ ''chatDataEN'' @ drop 10 (dropWhile is_space s1)"
    by simp
  have ws: "list_all is_space (takeWhile is_space s1)"
    by (auto simp: list_all_iff dest: set_takeWhileD)
  have "s = kw @ takeWhile is_space s1 @ ''chatDataEN'' @ drop 10 (dropWhile is_space s1)"
    using kw(1) s1 by simp
  with kw(2) sp ws assigned_array_Some [OF a] show ?thesis
    unfolding en_declared_def by blast
qed

lemma en_chat_at_found:
  assumes "en_declared s body"
  shows "en_chat_at s \<noteq> None"
proof -
  from assms obtain kw ws tail where s: "s = kw @ ws @ ''chatDataEN'' @ tail"
    and kw: "kw \<in> set [''const'', ''var'', ''let'']"
    and ws: "ws \<noteq> []" "list_all is_space ws" and a: "array_assigned tail body"
    unfolding en_declared_def by blast
  define s1 where "s1 = ws @ CHR ''c'' # ''hatDataEN'' @ tail"
  have s': "s = kw @ s1"
    by (simp add: s s1_def)
  have k: "after_keyword s = Some s1"
    unfolding s' by (rule after_keyword_found [OF kw])
  have t: "takeWhile is_space s1 = ws"
    unfolding s1_def using ws(2) by (simp add: takeWhile_append2 list_all_iff)
  have d: "dropWhile is_space s1 = ''chatDataEN'' @ tail"
    unfolding s1_def using ws(2) by (simp add: dropWhile_spaces)
  show ?thesis
    using assigned_array_found [OF a] ws(1) by (simp add: en_chat_at_def k t d)
qed

lemma en_chat_found_iff:
  "first_match en_chat_at js \<noteq> None \<longleftrightarrow> (\<exists>pre rest body. js = pre @ rest \<and> en_declared rest body)"
proof
  assume "first_match en_chat_at js \<noteq> None"
  then obtain body where "first_match en_chat_at js = Some body" by auto
  from first_match_Some_at [OF this] obtain pre rest where "js = pre @ rest" "en_chat_at rest = Some body"
    by blast
  with en_chat_at_Some [of rest body]
  show "\<exists>pre rest body. js = pre @ rest \<and> en_declared rest body"
    by blast
next
  assume "\<exists>pre rest body. js = pre @ rest \<and> en_declared rest body"
  then obtain pre rest body where js: "js = pre @ rest" and a: "en_declared rest body"
    by blast
  from en_chat_at_found [OF a] show "first_match en_chat_at js \<noteq> None"
    unfolding first_match_Some_iff js by blast
qed

lemma en_chat_capture:
  assumes "first_match en_chat_at js = Some body"
  shows "\<exists>pre rest. js = pre @ rest \<and> en_declared rest body"
proof -
  from first_match_Some_at [OF assms] obtain pre rest where "js = pre @ rest" "en_chat_at rest = Some body"
    by blast
  with en_chat_at_Some [of rest body] show ?thesis by blast
qed

lemma marker_at_Some:
  assumes "marker_at s = Some n"
  shows "\<exists>ws rest. s = CHR ''{'' # ws @ ''messages:'' @ rest \<and> list_all is_space ws \<and> n = 10 + length ws"
proof -
  from assms obtain cs where s: "s = CHR ''{'' # cs"
    and p: "prefix ''messages:'' (dropWhile is_space cs)"
    and n: "n = 1 + length (takeWhile is_space cs) + 9"
    by (auto simp: marker_at_def split: list.splits if_splits)
  from p have d: "dropWhile is_space cs = ''messages:'' @ drop 9 (dropWhile is_space cs)"
    by (auto simp: prefix_def)
  have "cs = takeWhile is_space cs @ dropWhile is_space cs"
    by simp
  with d have cs: "cs = takeWhile is_space cs @ ''messages:'' @ drop 9 (dropWhile is_space cs)"
    by simp
  have ws: "list_all is_space (takeWhile is_space cs)"
    by (auto simp: list_all_iff dest: set_takeWhileD)
  have "s = CHR ''{'' # takeWhile is_space cs @ ''messages:'' @ drop 9 (dropWhile is_space cs)"
    using s cs by simp
  with ws n show ?thesis by force
qed

lemma marker_at_found:
  assumes "list_all is_space ws"
  shows "marker_at (CHR ''{'' # ws @ ''messages:'' @ rest) = Some (10 + length ws)"
proof -
  define cs where "cs = ws @ CHR ''m'' # ''essages:'' @ rest"
  have t: "takeWhile is_space cs = ws"
    unfolding cs_def using assms by (simp add: takeWhile_append2 list_all_iff)
  have d: "dropWhile is_space cs = ''messages:'' @ rest"
    unfolding cs_def using assms by (simp add: dropWhile_spaces)
  have "marker_at (CHR ''{'' # cs) = Some (10 + length ws)"
    by (simp add: marker_at_def t d)
  then show ?thesis by (simp add: cs_def)
qed

lemma marker_here_iff: "marker_here s \<longleftrightarrow> marker_at s \<noteq> None"
proof
  assume "marker_here s"
  then obtain ws rest where "s = CHR ''{'' # ws @ ''messages:'' @ rest" "list_all is_space ws"
    unfolding marker_here_def by auto
  with marker_at_found [of ws rest] show "marker_at s \<noteq> None" by simp
next
  assume "marker_at s \<noteq> None"
  then obtain n where "marker_at s = Some n" by auto
  from marker_at_Some [OF this] show "marker_here s"
    unfolding marker_here_def by auto
qed

lemma marker_count_skip: "CHR ''{'' \<notin> set xs \<Longrightarrow> marker_count (xs @ ys) = marker_count ys"
  by (induction xs) (auto simp: marker_here_def)

lemma all_matches_skip: "m (c # cs) = None \<Longrightarrow> all_matches m (c # cs) = all_matches m cs"
  by (subst all_matches.simps) simp

lemma all_matches_end: "m [] = None \<Longrightarrow> all_matches m [] = []"
  by (subst all_matches.simps) simp

lemma all_matches_hit:
  "m s = Some n \<Longrightarrow> s \<noteq> [] \<Longrightarrow> all_matches m s = take n s # all_matches m (drop (max n 1) s)"
  by (subst all_matches.simps) simp

lemma conv_count_eq: "conv_count s = marker_count s"
proof (induction s rule: length_induct)
  case (1 s)
  show ?case
  proof (cases "marker_at s")
    case None
    show ?thesis
    proof (cases s)
      case Nil
      with None show ?thesis
        by (simp add: conv_count_def all_matches_end)
    next
      case (Cons c cs)
      have "conv_count s = conv_count cs"
        using None Cons by (simp add: conv_count_def all_matches_skip)
      moreover have "conv_count cs = marker_count cs"
        using 1 Cons by simp
      moreover have "\<not> marker_here s"
        using None by (simp add: marker_here_iff)
      ultimately show ?thesis
        using Cons by simp
    qed
  next
    case (Some n)
    from marker_at_Some [OF Some] obtain ws rest
      where s: "s = CHR ''{'' # ws @ ''messages:'' @ rest" and ws: "list_all is_space ws"
        and n: "n = 10 + length ws"
      by blast
    define pre where "pre = CHR ''{'' # ws @ ''messages:''"
    have split: "s = pre @ rest"
      by (simp add: pre_def s)
    have "max n 1 = length pre"
      by (simp add: pre_def n)
    then have d: "drop (max n 1) s = rest"
      by (simp add: split)
    have "s \<noteq> []"
      by (simp add: s)
    with Some have "all_matches marker_at s = take n s # all_matches marker_at (drop (max n 1) s)"
      by (rule all_matches_hit [where m = marker_at])
    then have "all_matches marker_at s = take n s # all_matches marker_at rest"
      by (simp only: d)
    then have "conv_count s = 1 + conv_count rest"
      by (simp add: conv_count_def)
    moreover have "conv_count rest = marker_count rest"
      using 1 s by simp
    moreover have "CHR ''{'' \<notin> set (ws @ ''messages:'')"
      using ws by (auto simp: list_all_iff)
    then have "marker_count ((ws @ ''messages:'') @ rest) = marker_count rest"
      by (rule marker_count_skip)
    moreover have "marker_here s"
      using Some by (simp add: marker_here_iff)
    ultimately show ?thesis
      using s by simp
  qed
qed

lemma lazy_capture_shortest:
  "lazy_capture t = Some found \<Longrightarrow> t = body @ rest \<Longrightarrow> closes_at rest \<Longrightarrow> length found \<le> length body"
proof (induction t arbitrary: found body)
  case Nil
  then show ?case by simp
next
  case (Cons c cs)
  show ?case
  proof (cases "closes_at (c # cs)")
    case True
    with Cons.prems(1) show ?thesis by simp
  next
    case False
    with Cons.prems(1) obtain f where f: "lazy_capture cs = Some f" "found = c # f"
      by auto
    from False Cons.prems(2,3) have "body \<noteq> []"
      by auto
    then obtain b where b: "body = c # b" "cs = b @ rest"
      using Cons.prems(2) by (cases body) auto
    from Cons.IH [OF f(1) b(2) Cons.prems(3)] show ?thesis
      by (simp add: f(2) b(1))
  qed
qed

lemma assigned_array_shortest:
  assumes "assigned_array s = Some found" "array_assigned s body"
  shows "length found \<le> length body"
proof -
  from assms(2) obtain ws1 ws2 ws3 post where
    s: "s = ws1 @ ''='' @ ws2 @ ''['' @ body @ ''];'' @ ws3 @ CHR 0x0A # post"
    and ws: "list_all is_space ws1" "list_all is_space ws2" "list_all is_space ws3"
    unfolding array_assigned_def by blast
  define rest where "rest = ''];'' @ ws3 @ CHR 0x0A # post"
  define t2 where "t2 = body @ rest"
  define t1 where "t1 = ws2 @ CHR ''['' # t2"
  have s': "s = ws1 @ CHR ''='' # t1"
    by (simp add: s t1_def t2_def rest_def)
  have c: "closes_at rest"
    unfolding closes_at_iff rest_def using ws(3) by blast
  have 1: "dropWhile is_space s = CHR ''='' # t1"
    unfolding s' using ws(1) by (simp add: dropWhile_spaces)
  have 2: "dropWhile is_space t1 = CHR ''['' # t2"
    unfolding t1_def using ws(2) by (simp add: dropWhile_spaces)
  have "assigned_array s = lazy_capture t2"
    by (simp add: assigned_array_def 1 2)
  with assms(1) have "lazy_capture t2 = Some found"
    by simp
  from lazy_capture_shortest [OF this t2_def c] show ?thesis .
qed

lemma first_match_leftmost:
  "first_match m s = Some x \<Longrightarrow>
     \<exists>pre rest. s = pre @ rest \<and> m rest = Some x
       \<and> (\<forall>pre' rest'. s = pre' @ rest' \<and> length pre' < length pre \<longrightarrow> m rest' = None)"
proof (induction s)
  case Nil
  then show ?case by simp
next
  case (Cons c cs)
  show ?case
  proof (cases "m (c # cs)")
    case None
    with Cons obtain pre rest where pr: "cs = pre @ rest" "m rest = Some x"
      and left: "\<forall>pre' rest'. cs = pre' @ rest' \<and> length pre' < length pre \<longrightarrow> m rest' = None"
      by auto
    have "m rest' = None" if "c # cs = pre' @ rest'" "length pre' < length (c # pre)" for pre' rest'
    proof (cases pre')
      case Nil
      with that None show ?thesis by simp
    next
      case (Cons p ps)
      with that have "cs = ps @ rest'" "length ps < length pre"
        by auto
      with left show ?thesis by blast
    qed
    with pr have "c # cs = (c # pre) @ rest \<and> m rest = Some x
       \<and> (\<forall>pre' rest'. c # cs = pre' @ rest' \<and> length pre' < length (c # pre) \<longrightarrow> m rest' = None)"
      by simp
    then show ?thesis by blast
  next
    case (Some a)
    with Cons.prems have "c # cs = [] @ (c # cs) \<and> m (c # cs) = Some x
       \<and> (\<forall>pre' rest'. c # cs = pre' @ rest' \<and> length pre' < length ([]::string) \<longrightarrow> m rest' = None)"
      by simp
    then show ?thesis by blast
  qed
qed

lemma pt_chat_at_tail: "pt_chat_at (''var chatData'' @ tail) = assigned_array tail"
  by (simp add: pt_chat_at_def)

lemma en_chat_at_tail:
  assumes "kw \<in> set [''const'', ''var'', ''let'']" "ws \<noteq> []" "list_all is_space ws"
  shows "en_chat_at (kw @ ws @ ''chatDataEN'' @ tail) = assigned_array tail"
proof -
  define s1 where "s1 = ws @ CHR ''c'' # ''hatDataEN'' @ tail"
  have s': "kw @ ws @ ''chatDataEN'' @ tail = kw @ s1"
    by (simp add: s1_def)
  have k: "after_keyword (kw @ s1) = Some s1"
    by (rule after_keyword_found [OF assms(1)])
  have t: "takeWhile is_space s1 = ws"
    unfolding s1_def using assms(3) by (simp add: takeWhile_append2 list_all_iff)
  have d: "dropWhile is_space s1 = ''chatDataEN'' @ tail"
    unfolding s1_def using assms(3) by (simp add: dropWhile_spaces)
  show ?thesis
    unfolding s' using assms(2) by (simp add: en_chat_at_def k t d)
qed

lemma pt_chat_first_shortest:
  assumes "first_match pt_chat_at js = Some found"
  shows "\<exists>pre tail. js = pre @ ''var chatData'' @ tail \<and> array_assigned tail found
           \<and> (\<forall>body. array_assigned tail body \<longrightarrow> length found \<le> length body)
           \<and> (\<forall>pre' tail' body'. js = pre' @ ''var chatData'' @ tail' \<and> array_assigned tail' body'
                  \<longrightarrow> length pre \<le> length pre')"
proof -
  from first_match_leftmost [OF assms] obtain pre rest where js: "js = pre @ rest"
    and at: "pt_chat_at rest = Some found"
    and left: "\<forall>pre' rest'. js = pre' @ rest' \<and> length pre' < length pre \<longrightarrow> pt_chat_at rest' = None"
    by blast
  from pt_chat_at_Some [OF at] obtain tail where rest: "rest = ''var chatData'' @ tail"
    and shape: "array_assigned tail found"
    by blast
  from at have a: "assigned_array tail = Some found"
    by (simp only: rest pt_chat_at_tail)
  have short: "length found \<le> length body" if "array_assigned tail body" for body
    using assigned_array_shortest [OF a that] .
  have first: "length pre \<le> length pre'"
    if "js = pre' @ ''var chatData'' @ tail'" "array_assigned tail' body'" for pre' tail' body'
  proof (rule ccontr)
    assume "\<not> length pre \<le> length pre'"
    then have "length pre' < length pre" by simp
    with left that(1) have "pt_chat_at (''var chatData'' @ tail') = None" by blast
    with pt_chat_at_found [OF that(2)] show False by simp
  qed
  from js rest shape short first show ?thesis
    by blast
qed

lemma en_chat_first_shortest:
  assumes "first_match en_chat_at js = Some found"
  shows "\<exists>pre rest. js = pre @ rest \<and> en_declared rest found
           \<and> (\<forall>body. en_declared rest body \<longrightarrow> length found \<le> length body)
           \<and> (\<forall>pre' rest' body'. js = pre' @ rest' \<and> en_declared rest' body'
                  \<longrightarrow> length pre \<le> length pre')"
proof -
  from first_match_leftmost [OF assms] obtain pre rest where js: "js = pre @ rest"
    and at: "en_chat_at rest = Some found"
    and left: "\<forall>pre' rest'. js = pre' @ rest' \<and> length pre' < length pre \<longrightarrow> en_chat_at rest' = None"
    by blast
  have shape: "en_declared rest found"
    by (rule en_chat_at_Some [OF at])
  have short: "length found \<le> length body" if "en_declared rest body" for body
  proof -
    from that obtain kw ws tail where r: "rest = kw @ ws @ ''chatDataEN'' @ tail"
      and kw: "kw \<in> set [''const'', ''var'', ''let'']"
      and ws: "ws \<noteq> []" "list_all is_space ws" and a: "array_assigned tail body"
      unfolding en_declared_def by blast
    from at have "assigned_array tail = Some found"
      by (simp only: r en_chat_at_tail [OF kw ws])
    from assigned_array_shortest [OF this a] show ?thesis .
  qed
  have first: "length pre \<le> length pre'"
    if "js = pre' @ rest'" "en_declared rest' body'" for pre' rest' body'
  proof (rule ccontr)
    assume "\<not> length pre \<le> length pre'"
    then have "length pre' < length pre" by simp
    with left that(1) have "en_chat_at rest' = None" by blast
    with en_chat_at_found [OF that(2)] show False by simp
  qed
  from js shape short first show ?thesis
    by blast
qed

text \<open>
  C7, as the script has it. The chat-data group always records two outcomes, first one
  for PT and then one for EN, whatever the first one was, and no warning; each outcome is
  a function of that variant's own search of the whole script text. The search for PT
  looks for \<open>var chatData\<close>, for EN for \<open>const\<close>, \<open>var\<close> or \<open>let\<close>, white space and
  \<open>chatDataEN\<close>; in both the name is followed by optional white space, \<open>=\<close>, optional
  white space, \<open>[\<close>, a body, \<open>];\<close> and white space that holds a line feed. If the text
  holds no such assignment the variant records one Fail. Otherwise the search takes the
  leftmost such assignment and the shortest body: the text from the opening bracket to
  the first \<open>];\<close> that is followed by white space with a line feed, which need not be the
  end of the array literal. The variant records a Pass if the number of conversation
  markers (an opening brace, optional white space, \<open>messages:\<close>) in that body is exactly
  4, and otherwise one Fail that reports the number found.
\<close>

theorem chat_variants_checked_separately:
  "chat_data_check js r =
     record_all
       [variant_outcome ''PT chat data has 4 conversations'' ''PT chatData not found''
          (first_match pt_chat_at js),
        variant_outcome ''EN chat data has 4 conversations'' ''EN chatDataEN not found''
          (first_match en_chat_at js)]
       (log (Heading ''8. Chat Data'') r)
   \<and> passed (chat_data_check js r) + failed (chat_data_check js r) = passed r + failed r + 2
   \<and> warnings (chat_data_check js r) = warnings r
   \<and> (first_match pt_chat_at js = None \<longleftrightarrow>
        \<not> (\<exists>pre tail body. js = pre @ ''var chatData'' @ tail \<and> array_assigned tail body))
   \<and> (first_match en_chat_at js = None \<longleftrightarrow>
        \<not> (\<exists>pre rest body. js = pre @ rest \<and> en_declared rest body))
   \<and> (first_match pt_chat_at js = Some found \<longrightarrow>
        (\<exists>pre tail. js = pre @ ''var chatData'' @ tail \<and> array_assigned tail found
           \<and> (\<forall>body. array_assigned tail body \<longrightarrow> length found \<le> length body)
           \<and> (\<forall>pre' tail' body'. js = pre' @ ''var chatData'' @ tail' \<and> array_assigned tail' body'
                  \<longrightarrow> length pre \<le> length pre')))
   \<and> (first_match en_chat_at js = Some found \<longrightarrow>
        (\<exists>pre rest. js = pre @ rest \<and> en_declared rest found
           \<and> (\<forall>body. en_declared rest body \<longrightarrow> length found \<le> length body)
           \<and> (\<forall>pre' rest' body'. js = pre' @ rest' \<and> en_declared rest' body'
                  \<longrightarrow> length pre \<le> length pre')))
   \<and> conv_count body = marker_count body"
proof -
  have 1: "chat_data_check js r =
     record_all
       [variant_outcome ''PT chat data has 4 conversations'' ''PT chatData not found''
          (first_match pt_chat_at js),
        variant_outcome ''EN chat data has 4 conversations'' ''EN chatDataEN not found''
          (first_match en_chat_at js)]
       (log (Heading ''8. Chat Data'') r)"
    by (simp add: chat_data_check_def pt_chat_check_def en_chat_check_def variant_outcome_def
        check_def split: option.splits)
  have 2: "passed (chat_data_check js r) + failed (chat_data_check js r) = passed r + failed r + 2"
    by (simp add: chat_data_check_def pt_chat_check_def en_chat_check_def check_def pass_def
        fail_def log_def split: option.splits)
  have 3: "warnings (chat_data_check js r) = warnings r"
    by (simp add: chat_data_check_def pt_chat_check_def en_chat_check_def check_def pass_def
        fail_def log_def split: option.splits)
  note 4 = pt_chat_found_iff [of js]
  note 5 = en_chat_found_iff [of js]
  have 6: "first_match pt_chat_at js = Some found \<longrightarrow>
        (\<exists>pre tail. js = pre @ ''var chatData'' @ tail \<and> array_assigned tail found
           \<and> (\<forall>body. array_assigned tail body \<longrightarrow> length found \<le> length body)
           \<and> (\<forall>pre' tail' body'. js = pre' @ ''var chatData'' @ tail' \<and> array_assigned tail' body'
                  \<longrightarrow> length pre \<le> length pre'))"
    using pt_chat_first_shortest [of js found] by (rule impI)
  have 7: "first_match en_chat_at js = Some found \<longrightarrow>
        (\<exists>pre rest. js = pre @ rest \<and> en_declared rest found
           \<and> (\<forall>body. en_declared rest body \<longrightarrow> length found \<le> length body)
           \<and> (\<forall>pre' rest' body'. js = pre' @ rest' \<and> en_declared rest' body'
                  \<longrightarrow> length pre \<le> length pre'))"
    using en_chat_first_shortest [of js found] by (rule impI)
  note 8 = conv_count_eq [of body]
  show ?thesis
    by (intro conjI 1 2 3 6 7 8; use 4 5 in blast)
qed

lemma script_pt4_en1_arrays:
  "first_match pt_chat_at script_pt4_en1 = Some (CHR 0x0A # four_conversations)"
  "first_match en_chat_at script_pt4_en1 = Some ''{ messages: [1] }''"
  "conv_count (CHR 0x0A # four_conversations) = 4"
  "conv_count ''{ messages: [1] }'' = 1"
  unfolding script_pt4_en1_def four_conversations_def by code_simp+

lemma script_en4_arrays:
  "first_match pt_chat_at script_en4 = None"
  "first_match en_chat_at script_en4 = Some (CHR 0x0A # four_conversations)"
  unfolding script_en4_def four_conversations_def by code_simp+

theorem chat_variants_checked_separately_witness:
  "console (chat_data_check script_pt4_en1 initial) =
     [Heading ''8. Chat Data'',
      Result Pass ''PT chat data has 4 conversations'',
      Result Fail ''EN chat data has 4 conversations'', Detail ''Found 1'']
   \<and> console (chat_data_check script_en4 initial) =
     [Heading ''8. Chat Data'',
      Result Fail ''PT chatData not found'',
      Result Pass ''EN chat data has 4 conversations'']
   \<and> (\<exists>pre tail. script_pt4_en1 = pre @ ''var chatData'' @ tail
         \<and> array_assigned tail (CHR 0x0A # four_conversations))
   \<and> (\<exists>pre rest. script_en4 = pre @ rest \<and> en_declared rest (CHR 0x0A # four_conversations))
   \<and> (\<nexists>pre tail body. script_en4 = pre @ ''var chatData'' @ tail \<and> array_assigned tail body)
   \<and> marker_count (CHR 0x0A # four_conversations) = 4
   \<and> passed (chat_data_check script_pt4_en1 initial) + failed (chat_data_check script_pt4_en1 initial) = 2"
proof -
  note pt4 =
    chat_variants_checked_separately
      [of script_pt4_en1 initial "CHR 0x0A # four_conversations" "CHR 0x0A # four_conversations"]
  note en4 =
    chat_variants_checked_separately
      [of script_en4 initial "CHR 0x0A # four_conversations" "CHR 0x0A # four_conversations"]
  have 1: "console (chat_data_check script_pt4_en1 initial) =
     [Heading ''8. Chat Data'',
      Result Pass ''PT chat data has 4 conversations'',
      Result Fail ''EN chat data has 4 conversations'', Detail ''Found 1'']"
    using pt4 [THEN conjunct1]
    by (simp add: script_pt4_en1_arrays variant_outcome_def initial_def log_def pass_def fail_def
        show_nat.simps digit_def)
  have 2: "console (chat_data_check script_en4 initial) =
     [Heading ''8. Chat Data'',
      Result Fail ''PT chatData not found'',
      Result Pass ''EN chat data has 4 conversations'']"
    using en4 [THEN conjunct1]
    by (simp add: script_pt4_en1_arrays script_en4_arrays variant_outcome_def initial_def log_def
        pass_def fail_def)
  have 3: "\<exists>pre tail. script_pt4_en1 = pre @ ''var chatData'' @ tail
         \<and> array_assigned tail (CHR 0x0A # four_conversations)"
    using pt4 script_pt4_en1_arrays(1) by blast
  have 4: "\<exists>pre rest. script_en4 = pre @ rest \<and> en_declared rest (CHR 0x0A # four_conversations)"
    using en4 script_en4_arrays(2) by blast
  have 5: "\<nexists>pre tail body. script_en4 = pre @ ''var chatData'' @ tail \<and> array_assigned tail body"
    using en4 script_en4_arrays(1) by blast
  have 6: "marker_count (CHR 0x0A # four_conversations) = 4"
    using pt4 script_pt4_en1_arrays(3) by simp
  have 7: "passed (chat_data_check script_pt4_en1 initial) + failed (chat_data_check script_pt4_en1 initial) = 2"
    using pt4 [THEN conjunct2, THEN conjunct1] by (simp add: initial_def)
  from 1 2 3 4 5 6 7 show ?thesis
    by (simp only: simp_thms)
qed

text \<open>
  C7 as it is stated, with the markers counted inside the array literal and each outcome
  independent of the other variant, fails. When the \<open>];\<close> that closes the Portuguese
  array is followed on its line by a comment, the body taken for PT runs on to the end
  of the English array. With a Portuguese array of one conversation, PT records a Pass
  when the English array has three conversations, and a Fail reporting 2 when the
  English array has one: the outcome for PT follows the English array.
\<close>

theorem pt_capture_runs_into_en_array:
  "conv_count ''{ messages: 1 }'' = 1
   \<and> first_match pt_chat_at script_comment_en1 =
       Some (''{ messages: 1 }]; // pt'' @ [CHR 0x0A] @ ''const chatDataEN = [{ messages: 1 }'')
   \<and> first_match en_chat_at script_comment_en1 = Some ''{ messages: 1 }''
   \<and> console (chat_data_check script_comment_en3 initial) =
       [Heading ''8. Chat Data'',
        Result Pass ''PT chat data has 4 conversations'',
        Result Fail ''EN chat data has 4 conversations'', Detail ''Found 3'']
   \<and> console (chat_data_check script_comment_en1 initial) =
       [Heading ''8. Chat Data'',
        Result Fail ''PT chat data has 4 conversations'', Detail ''Found 2'',
        Result Fail ''EN chat data has 4 conversations'', Detail ''Found 1'']"
  unfolding script_comment_en3_def script_comment_en1_def pt_line_with_comment_def by code_simp

section \<open>Properties of the browser QA script\<close>

lemma context_round_trip [simp]: "context_closed (report f (context_opened s)) = report f s"
  by (simp add: context_closed_def context_opened_def report_def)

lemma load_check_ok:
  assumes "load_newContext p = Returns ()" "load_newPage p = Returns ()" "load_close p = Returns ()"
  shows "load_check pg p s = Completed (report (load_outcomes pg p) s)"
  using assms by (simp add: load_check_def)

lemma layout_goto_escapes:
  assumes "layout_newContext q = Returns ()" "layout_newPage q = Returns ()" "layout_goto q = Throws e"
  shows "layout_check vp q s = Rejected e (context_opened s)"
  using assms by (simp add: layout_check_def)

lemma layout_checks_escape:
  assumes "layout_newContext (probe vp) = Returns ()" "layout_newPage (probe vp) = Returns ()"
    "layout_goto (probe vp) = Throws e"
  shows "layout_checks probe (vp # vps) s = Rejected e (context_opened s)"
  using assms by (simp add: layout_goto_escapes)

lemma open_contexts_report [simp]: "open_contexts (report f s) = open_contexts s"
  by (simp add: report_def)

lemma open_contexts_opened [simp]: "open_contexts (context_opened s) = open_contexts s + 1"
  by (simp add: context_opened_def)

lemma layout_probe_escapes:
  assumes "layout_newContext q = Returns ()" "layout_newPage q = Returns ()"
    and "layout_probe_error q = Some e"
  shows "\<exists>s'. layout_check vp q s = Rejected e s' \<and> open_contexts s' = open_contexts s + 1"
proof (cases "layout_goto q")
  case (Throws x)
  with assms show ?thesis
    by (simp add: layout_check_def layout_probe_error_def)
next
  case goto: (Returns u)
  show ?thesis
  proof (cases "layout_overflow q")
    case (Throws x)
    with assms goto show ?thesis
      by (simp add: layout_check_def layout_probe_error_def)
  next
    case overflow: (Returns v)
    show ?thesis
    proof (cases "layout_navVisible q")
      case (Throws x)
      with assms goto overflow show ?thesis
        by (simp add: layout_check_def layout_probe_error_def)
    next
      case nav: (Returns n)
      show ?thesis
      proof (cases "layout_phoneCheck q")
        case (Throws x)
        with assms goto overflow nav show ?thesis
          by (simp add: layout_check_def layout_probe_error_def)
      next
        case phone: (Returns ph)
        show ?thesis
        proof (cases "layout_footerVisible q")
          case (Throws x)
          with assms goto overflow nav phone show ?thesis
            by (simp add: layout_check_def layout_probe_error_def)
        next
          case (Returns f)
          with assms goto overflow nav phone show ?thesis
            by (simp add: layout_probe_error_def)
        qed
      qed
    qed
  qed
qed

lemma stuck_layout_run:
  "run local_url stringify browser_with_stuck_layout =
     Rejected ''Timeout 15000ms exceeded''
       stuck_state"
  by (simp add: run_def local_url_def browser_with_stuck_layout_def PAGES_def VIEWPORTS_def
      load_check_ok ok_load_def layout_goto_escapes stuck_layout_def load_outcomes_def
      qa_start_def heading_def report_def context_opened_def initial_def log_def pass_def
      show_nat.simps digit_def stuck_state_def)

text \<open>
  C2, as the script has it. The page-load group has a \<open>try\<close>/\<open>catch\<close> around its
  probing: when the context and the page of a route were set up and its context can be
  closed, an exception thrown by the navigation is recorded as exactly one Fail with the
  error message as detail, no other counter changes, the context is closed again, and
  the loop goes on with the next route. The responsive-layout group has no such
  boundary: an exception thrown by any of its probing calls leaves the context of that
  pass open and rejects \<open>run()\<close> before the remaining viewports, and one thrown by the
  navigation records nothing; and a rejected \<open>run()\<close> ends in the top-level handler, with
  exit code 1 and without a summary.
\<close>

theorem load_group_catches_navigation_errors:
  assumes "load_newContext (probe pg) = Returns ()" "load_newPage (probe pg) = Returns ()"
    and "load_close (probe pg) = Returns ()"
  shows "(load_goto (probe pg) = Throws e \<longrightarrow>
            load_check pg (probe pg) s = Completed (report (fail (pg_name pg @ '' load'') (Some e)) s)
            \<and> failed (rep (report (fail (pg_name pg @ '' load'') (Some e)) s)) = failed (rep s) + 1
            \<and> passed (rep (report (fail (pg_name pg @ '' load'') (Some e)) s)) = passed (rep s)
            \<and> warnings (rep (report (fail (pg_name pg @ '' load'') (Some e)) s)) = warnings (rep s))
       \<and> (\<exists>s'. load_check pg (probe pg) s = Completed s' \<and> open_contexts s' = open_contexts s
              \<and> load_checks probe (pg # pgs) s = load_checks probe pgs s')
       \<and> (layout_newContext (layouts b vp) = Returns () \<and> layout_newPage (layouts b vp) = Returns ()
            \<and> layout_probe_error (layouts b vp) = Some e \<longrightarrow>
            (\<exists>s'. layout_checks (layouts b) (vp # vps) s = Rejected e s'
               \<and> open_contexts s' = open_contexts s + 1))
       \<and> (layout_newContext (layouts b vp) = Returns () \<and> layout_newPage (layouts b vp) = Returns ()
            \<and> layout_goto (layouts b vp) = Throws e \<longrightarrow>
            layout_checks (layouts b) (vp # vps) s = Rejected e (context_opened s)
            \<and> rep (context_opened s) = rep s
            \<and> open_contexts (context_opened s) = open_contexts s + 1)
       \<and> (run base_url stringify b = Rejected e t \<longrightarrow>
            qa_main base_url stringify b = Fatal e t
            \<and> qa_exit_code (qa_main base_url stringify b) = 1)"
proof -
  have completed: "load_check pg (probe pg) s = Completed (report (load_outcomes pg (probe pg)) s)"
    using assms by (rule load_check_ok)
  have caught: "load_outcomes pg (probe pg) = fail (pg_name pg @ '' load'') (Some e)"
    if "load_goto (probe pg) = Throws e"
    using that by (simp add: load_outcomes_def fun_eq_iff)
  have next_page: "load_checks probe (pg # pgs) s = load_checks probe pgs (report (load_outcomes pg (probe pg)) s)"
    using completed by simp
  have closed: "open_contexts (report (load_outcomes pg (probe pg)) s) = open_contexts s"
    by (simp add: report_def)
  have fatal: "qa_main base_url stringify b = Fatal e t \<and> qa_exit_code (qa_main base_url stringify b) = 1"
    if "run base_url stringify b = Rejected e t"
    using that by (simp add: qa_main_def)
  have escapes: "\<exists>s'. layout_checks (layouts b) (vp # vps) s = Rejected e s'
               \<and> open_contexts s' = open_contexts s + 1"
    if "layout_newContext (layouts b vp) = Returns ()" "layout_newPage (layouts b vp) = Returns ()"
      "layout_probe_error (layouts b vp) = Some e"
  proof -
    from layout_probe_escapes [OF that] obtain s'
      where "layout_check vp (layouts b vp) s = Rejected e s'" "open_contexts s' = open_contexts s + 1"
      by blast
    then show ?thesis by simp
  qed
  have first: "(load_goto (probe pg) = Throws e \<longrightarrow>
            load_check pg (probe pg) s = Completed (report (fail (pg_name pg @ '' load'') (Some e)) s)
            \<and> failed (rep (report (fail (pg_name pg @ '' load'') (Some e)) s)) = failed (rep s) + 1
            \<and> passed (rep (report (fail (pg_name pg @ '' load'') (Some e)) s)) = passed (rep s)
            \<and> warnings (rep (report (fail (pg_name pg @ '' load'') (Some e)) s)) = warnings (rep s))"
    using completed caught by (simp add: report_def)
  have second: "\<exists>s'. load_check pg (probe pg) s = Completed s' \<and> open_contexts s' = open_contexts s
              \<and> load_checks probe (pg # pgs) s = load_checks probe pgs s'"
    using completed next_page closed by simp
  have fourth: "layout_newContext (layouts b vp) = Returns () \<and> layout_newPage (layouts b vp) = Returns ()
            \<and> layout_goto (layouts b vp) = Throws e \<longrightarrow>
            layout_checks (layouts b) (vp # vps) s = Rejected e (context_opened s)
            \<and> rep (context_opened s) = rep s
            \<and> open_contexts (context_opened s) = open_contexts s + 1"
    using layout_checks_escape [of "layouts b" vp e vps s] by (simp add: context_opened_def)
  from first second escapes fourth fatal show ?thesis
    by blast
qed

theorem load_group_catches_navigation_errors_witness:
  "load_check (hd PAGES) refused_load (qa_start local_url) =
     Completed (report (fail ''Home load'' (Some ''net::ERR_CONNECTION_REFUSED'')) (qa_start local_url))
   \<and> load_checks (\<lambda>pg. refused_load) PAGES (qa_start local_url) =
       load_checks (\<lambda>pg. refused_load) (tl PAGES)
         (report (fail ''Home load'' (Some ''net::ERR_CONNECTION_REFUSED'')) (qa_start local_url))
   \<and> layout_checks (\<lambda>vp. stuck_layout) VIEWPORTS (qa_start local_url) =
       Rejected ''Timeout 15000ms exceeded'' (context_opened (qa_start local_url))
   \<and> qa_exit_code (qa_main local_url stringify_lang browser_with_stuck_layout) = 1"
proof -
  have ready: "load_newContext ((\<lambda>pg. refused_load) (hd PAGES)) = Returns ()"
    "load_newPage ((\<lambda>pg. refused_load) (hd PAGES)) = Returns ()"
    "load_close ((\<lambda>pg. refused_load) (hd PAGES)) = Returns ()"
    by (simp_all add: refused_load_def ok_load_def)
  have thrown: "load_goto refused_load = Throws ''net::ERR_CONNECTION_REFUSED''"
    by (simp add: refused_load_def ok_load_def)
  have stuck: "layout_newContext stuck_layout = Returns ()" "layout_newPage stuck_layout = Returns ()"
    "layout_goto stuck_layout = Throws ''Timeout 15000ms exceeded''"
    "layout_probe_error stuck_layout = Some ''Timeout 15000ms exceeded''"
    by (simp_all add: stuck_layout_def layout_probe_error_def)
  have layouts: "layouts browser_with_stuck_layout = (\<lambda>vp. stuck_layout)"
    by (simp add: browser_with_stuck_layout_def)
  have pages: "PAGES = hd PAGES # tl PAGES" "pg_name (hd PAGES) = ''Home''"
    "VIEWPORTS = hd VIEWPORTS # tl VIEWPORTS"
    by (simp_all add: PAGES_def VIEWPORTS_def)
  note at_home =
    load_group_catches_navigation_errors
      [where probe = "\<lambda>pg. refused_load" and pg = "hd PAGES" and s = "qa_start local_url"
         and pgs = "tl PAGES" and b = browser_with_stuck_layout and vp = "hd VIEWPORTS"
         and vps = "tl VIEWPORTS" and base_url = local_url and stringify = stringify_lang
         and t = stuck_state]
  show ?thesis
    using at_home [where e = "''net::ERR_CONNECTION_REFUSED''"]
      at_home [where e = "''Timeout 15000ms exceeded''"]
      ready thrown stuck layouts pages(2) stuck_layout_run [of stringify_lang]
    by (simp add: pages(1) [symmetric] pages(3) [symmetric])
qed

text \<open>
  C2 as it is stated fails for the responsive-layout group. All three pages load; then
  the navigation of the first viewport times out. No Fail is recorded, the context of
  that pass stays open, the console ends at the heading of group 2, and the process
  exits through the fatal handler.
\<close>

theorem layout_timeout_aborts_run:
  "layout_goto (layouts browser_with_stuck_layout (hd VIEWPORTS)) = Throws ''Timeout 15000ms exceeded''
   \<and> qa_main local_url stringify_lang browser_with_stuck_layout =
       Fatal ''Timeout 15000ms exceeded'' stuck_state
   \<and> failed (rep stuck_state) = 0
   \<and> open_contexts stuck_state = 1
   \<and> last (console (rep stuck_state)) = Heading ''2. Responsive Layout''
   \<and> qa_exit_code (qa_main local_url stringify_lang browser_with_stuck_layout) = 1"
  using stuck_layout_run [of stringify_lang]
  by (simp add: qa_main_def browser_with_stuck_layout_def stuck_layout_def stuck_state_def)

end
